theory Spec2Isabelle
  imports Complex_Main "HOL-Library.Sublist"
begin

section \<open>Python values\<close>

text \<open>
  The repository holds two Flask programs that implement the same telephone survey agent:
  \<^verbatim>\<open>server.py\<close> and \<^verbatim>\<open>forUI.py\<close>. Both are modelled here. Functions of
  \<^verbatim>\<open>server.py\<close> carry the prefix \<open>server_\<close> where the name also occurs in
  \<^verbatim>\<open>forUI.py\<close>, and those of \<^verbatim>\<open>forUI.py\<close> carry the prefix \<open>forUI_\<close>.

  A Python \<^verbatim>\<open>str\<close> is a \<open>string\<close> holding its UTF-8 encoding. An exception that
  the source lets escape is a value of type \<open>exn\<close>.
\<close>

datatype exn =
    KeyError
  | AttributeError
  | TypeError
  | ValueError
  | SystemExit int
  | PyException string
  | ExternalError

subsection \<open>\<^verbatim>\<open>str.strip()\<close>\<close>

text \<open>
  \<^verbatim>\<open>str.strip()\<close> without an argument removes the code points for which
  \<^verbatim>\<open>str.isspace()\<close> holds: U+0009..U+000D, U+001C..U+0020, U+0085, U+00A0, U+1680,
  U+2000..U+200A, U+2028, U+2029, U+202F, U+205F and U+3000. \<open>whitespace\<close> lists their
  UTF-8 encodings.
\<close>

definition whitespace :: "string list" where
  "whitespace =
     map (\<lambda>c. [c]) [CHR 0x09, CHR 0x0A, CHR 0x0B, CHR 0x0C, CHR 0x0D,
                    CHR 0x1C, CHR 0x1D, CHR 0x1E, CHR 0x1F, CHR 0x20]
     @ [[CHR 0xC2, CHR 0x85], [CHR 0xC2, CHR 0xA0], [CHR 0xE1, CHR 0x9A, CHR 0x80]]
     @ map (\<lambda>c. [CHR 0xE2, CHR 0x80, c])
         [CHR 0x80, CHR 0x81, CHR 0x82, CHR 0x83, CHR 0x84, CHR 0x85, CHR 0x86, CHR 0x87,
          CHR 0x88, CHR 0x89, CHR 0x8A, CHR 0xA8, CHR 0xA9, CHR 0xAF]
     @ [[CHR 0xE2, CHR 0x81, CHR 0x9F], [CHR 0xE3, CHR 0x80, CHR 0x80]]"

text \<open>The number of bytes of the code point of \<open>ws\<close> that \<open>s\<close> starts with, 0 if none.\<close>

definition lead :: "string list \<Rightarrow> string \<Rightarrow> nat" where
  "lead ws s = (case find (\<lambda>w. w \<noteq> [] \<and> take (length w) s = w) ws of
                  None \<Rightarrow> 0 | Some w \<Rightarrow> length w)"

function lstrip :: "string list \<Rightarrow> string \<Rightarrow> string" where
  "lstrip ws s = (if lead ws s = 0 then s else lstrip ws (drop (lead ws s) s))"
  by pat_completeness auto
termination
proof (relation "measure (\<lambda>(ws, s). length s)")
  fix ws :: "string list" and s :: string
  assume "lead ws s \<noteq> 0"
  then have "s \<noteq> []"
    by (auto simp: lead_def find_Some_iff split: option.splits)
  with \<open>lead ws s \<noteq> 0\<close> show "((ws, drop (lead ws s) s), (ws, s)) \<in> measure (\<lambda>(ws, s). length s)"
    by simp
qed simp

declare lstrip.simps [simp del]

text \<open>The trailing side is the leading side of the reversed string.\<close>

definition strip :: "string \<Rightarrow> string" where
  "strip s = rev (lstrip (map rev whitespace) (rev (lstrip whitespace s)))"


section \<open>Conversation turns and voice-response documents\<close>

text \<open>
  A message of a conversation is the dictionary \<^verbatim>\<open>{"role": ..., "content": ...}\<close>. The
  store \<^verbatim>\<open>conversations\<close> is a dictionary from call identifiers to lists of messages.
\<close>

record turn =
  role :: string
  content :: string

text \<open>
  The language-model provider is outside the repository. A \<open>provider\<close> maps the
  messages it is sent to the content of the first choice, or to \<open>None\<close> when the
  request or the extraction of the content raises.
\<close>

type_synonym provider = "turn list \<Rightarrow> string option"

text \<open>
  A handler answers with a TwiML document, modelled as the list of its verbs. A
  \<^verbatim>\<open>Gather\<close> listens for speech and posts what it heard to its action; the verbs nested
  in it are spoken while it listens. The attribute \<^verbatim>\<open>method\<close> is the field
  \<open>http_method\<close>.
\<close>

record gather_attrs =
  input :: string
  action :: string
  http_method :: string
  timeout :: nat
  speech_timeout :: string

datatype verb =
    Pause nat
  | Say string
  | Redirect string
  | Gather gather_attrs "verb list"

text \<open>
  A document keeps the call going when it holds a \<^verbatim>\<open>Gather\<close> or a
  \<^verbatim>\<open>Redirect\<close>; a document of \<^verbatim>\<open>Say\<close> and \<^verbatim>\<open>Pause\<close> only is
  spoken and the call ends.
\<close>

fun continues :: "verb \<Rightarrow> bool" where
  "continues (Gather a vs) = True"
| "continues (Redirect u) = True"
| "continues (Say t) = False"
| "continues (Pause n) = False"

definition listens :: "verb list \<Rightarrow> bool" where
  "listens vr = list_ex continues vr"

text \<open>A webhook request carries form fields, one value for each name.\<close>

type_synonym form = "string \<rightharpoonup> string"

section \<open>\<^verbatim>\<open>server.py\<close>: reply generator and webhooks\<close>

definition SYSTEM_PROMPT :: string where
  \<open>SYSTEM_PROMPT =
   ''\<newline>''
   @ ''You are ARJUN, a friendly Indian male customer-support survey assistant.\<newline>''
   @ ''\<newline>''
   @ ''Your role:\<newline>''
   @ ''- Call a customer and collect meaningful feedback.\<newline>''
   @ ''- Speak naturally in short, conversational sentences.\<newline>''
   @ ''- Ask ONE question at a time.\<newline>''
   @ ''- Adapt your questions based on the product they purchased.\<newline>''
   @ ''\<newline>''
   @ ''Conversation Flow (Dynamic):\<newline>''
   @ ''1. Start by asking if they recently purchased a product.\<newline>''
   @ ''2. Ask what product they bought.\<newline>''
   @ ''3. Detect the product type and automatically choose relevant follow-up questions.\<newline>''
   @ ''4. Ask 4''
   @ [CHR 0xE2, CHR 0x80, CHR 0x93]
   @ ''6 short, meaningful questions related to THAT product.\<newline>''
   @ ''5. Keep the tone warm, helpful, and human.\<newline>''
   @ ''6. End politely with a thank you.\<newline>''
   @ ''\<newline>''
   @ ''Product Understanding Rules:\<newline>''
   @ ''- Identify the product category from the user's words.\<newline>''
   @ ''- Ask questions suitable for that category.\<newline>''
   @ ''- Examples:\<newline>''
   @ ''    ''
   @ [CHR 0xE2, CHR 0x80, CHR 0xA2]
   @ '' If they bought a dog ''
   @ [CHR 0xE2, CHR 0x86, CHR 0x92]
   @ '' ask about dog chain availability, training, food quality, health, vaccinations, grooming, behaviour.\<newline>''
   @ ''    ''
   @ [CHR 0xE2, CHR 0x80, CHR 0xA2]
   @ '' If they bought electronics ''
   @ [CHR 0xE2, CHR 0x86, CHR 0x92]
   @ '' ask about performance, battery, heating, installation experience.\<newline>''
   @ ''    ''
   @ [CHR 0xE2, CHR 0x80, CHR 0xA2]
   @ '' If they bought clothing ''
   @ [CHR 0xE2, CHR 0x86, CHR 0x92]
   @ '' ask about size, material, comfort, fitting, delivery.\<newline>''
   @ ''    ''
   @ [CHR 0xE2, CHR 0x80, CHR 0xA2]
   @ '' If they bought groceries ''
   @ [CHR 0xE2, CHR 0x86, CHR 0x92]
   @ '' ask about freshness, packaging, taste.\<newline>''
   @ ''    ''
   @ [CHR 0xE2, CHR 0x80, CHR 0xA2]
   @ '' If they bought home appliances ''
   @ [CHR 0xE2, CHR 0x86, CHR 0x92]
   @ '' ask about installation, noise, energy usage, ease of use.\<newline>''
   @ ''    ''
   @ [CHR 0xE2, CHR 0x80, CHR 0xA2]
   @ '' If they bought cosmetics ''
   @ [CHR 0xE2, CHR 0x86, CHR 0x92]
   @ '' ask about fragrance, sensitivity, texture, results.\<newline>''
   @ ''\<newline>''
   @ ''When they answer:\<newline>''
   @ ''- Briefly acknowledge what they said.\<newline>''
   @ ''- Continue the survey with the next relevant question.\<newline>''
   @ ''- Never ask unrelated or generic questions.\<newline>''
   @ ''- Never ask multiple questions at once.\<newline>''
   @ ''\<newline>''
   @ ''If the user says they didn''
   @ [CHR 0xE2, CHR 0x80, CHR 0x99]
   @ ''t buy anything:\<newline>''
   @ ''- Apologize politely and end the call early.\<newline>''
   @ ''\<newline>''
   @ ''Speak like a friendly Indian support agent.\<newline>''
   @ ''Keep everything short, simple, and phone-friendly.\<newline>''\<close>

definition generate_ai_reply ::
  "provider \<Rightarrow> string \<Rightarrow> string \<Rightarrow> (string \<rightharpoonup> turn list) \<Rightarrow> string \<times> (string \<rightharpoonup> turn list)"
where
  "generate_ai_reply groq_client call_sid user_text conversations =
     (let history0 = (case conversations call_sid of
                        None \<Rightarrow> [\<lparr>role = ''system'', content = SYSTEM_PROMPT\<rparr>]
                      | Some h \<Rightarrow> h);
          history1 = history0 @ [\<lparr>role = ''user'', content = user_text\<rparr>];
          reply = (case groq_client history1 of
                     Some c \<Rightarrow> strip c
                   | None \<Rightarrow> ''Sorry, I am having trouble right now. We will contact you again later.'');
          history2 = history1 @ [\<lparr>role = ''assistant'', content = reply\<rparr>];
          history3 = drop (length history2 - 10) history2
      in (reply, conversations(call_sid \<mapsto> history3)))"

definition server_voice :: "form \<Rightarrow> (string \<rightharpoonup> turn list) \<Rightarrow> verb list \<times> (string \<rightharpoonup> turn list)" where
  "server_voice frm conversations =
     (let call_sid = (case frm ''CallSid'' of None \<Rightarrow> ''unknown'' | Some v \<Rightarrow> v);
          conversations1 = (case conversations call_sid of
                              None \<Rightarrow> conversations(call_sid \<mapsto> [\<lparr>role = ''system'', content = SYSTEM_PROMPT\<rparr>])
                            | Some h \<Rightarrow> conversations)
      in ([Pause 1,
           Gather \<lparr>input = ''speech'', action = ''/gather'', http_method = ''POST'', timeout = 8,
                    speech_timeout = ''auto''\<rparr>
             [Say (''Hello, this is Arjun from customer support. ''
                   @ ''I would like to ask a few quick questions about your experience with our product. ''
                   @ ''Did you recently buy our product?'')],
           Say ''I did not hear anything. Let me try once more.'',
           Redirect ''/voice''],
          conversations1))"

definition server_gather ::
  "provider \<Rightarrow> form \<Rightarrow> (string \<rightharpoonup> turn list) \<Rightarrow> verb list \<times> (string \<rightharpoonup> turn list)"
where
  "server_gather groq_client frm conversations =
     (let call_sid = (case frm ''CallSid'' of None \<Rightarrow> ''unknown'' | Some v \<Rightarrow> v);
          user_text = (case frm ''SpeechResult'' of None \<Rightarrow> [] | Some v \<Rightarrow> v)
      in if strip user_text = []
         then ([Say ''I did not catch that. Please say it again.'', Redirect ''/voice''],
               conversations)
         else (case generate_ai_reply groq_client call_sid user_text conversations of
                 (reply, conversations1) \<Rightarrow>
                   ([Gather \<lparr>input = ''speech'', action = ''/gather'', http_method = ''POST'',
                             timeout = 8, speech_timeout = ''auto''\<rparr> [Say reply],
                     Say (''I did not hear anything. I will end this call now. ''
                          @ ''Thank you for your time. Goodbye.'')],
                    conversations1)))"

section \<open>\<^verbatim>\<open>forUI.py\<close>: webhooks\<close>

text \<open>
  \<^verbatim>\<open>request.values.get("CallSid")\<close> has no default, so the call identifier is
  \<^verbatim>\<open>None\<close> when the field is absent, and the keys of the store are optional strings.
  \<^verbatim>\<open>conversations[call_sid]\<close> raises \<^verbatim>\<open>KeyError\<close> for a key that is not in the store.
\<close>

definition forUI_voice ::
  "form \<Rightarrow> (string option \<rightharpoonup> turn list) \<Rightarrow> verb list \<times> (string option \<rightharpoonup> turn list)"
where
  "forUI_voice vals conversations =
     (let call_sid = vals ''CallSid'';
          conversations1 = (case conversations call_sid of
                              None \<Rightarrow> conversations(call_sid \<mapsto>
                                [\<lparr>role = ''system'',
                                  content = ''You are Arjun, a friendly, calm Indian male assistant. ''
                                    @ ''Speak naturally and briefly. You are conducting a simple survey.''\<rparr>])
                            | Some h \<Rightarrow> conversations)
      in ([Gather \<lparr>input = ''speech'', action = ''/gather'', http_method = ''POST'', timeout = 5,
                    speech_timeout = ''auto''\<rparr>
             [Say (''Hello! This is Arjun from customer care. ''
                   @ ''Did you recently purchase a product from us?'')],
           Say (''I didn'' @ [CHR 0xE2, CHR 0x80, CHR 0x99] @ ''t hear anything. Goodbye.'')],
          conversations1))"

definition forUI_gather ::
  "provider \<Rightarrow> form \<Rightarrow> (string option \<rightharpoonup> turn list)
     \<Rightarrow> exn + verb list \<times> (string option \<rightharpoonup> turn list)"
where
  "forUI_gather groq vals conversations =
     (let call_sid = vals ''CallSid'';
          user_speech = strip (case vals ''SpeechResult'' of None \<Rightarrow> [] | Some v \<Rightarrow> v)
      in if user_speech = []
         then Inr ([Say (''Sorry, I didn't catch that. Let'' @ [CHR 0xE2, CHR 0x80, CHR 0x99]
                         @ ''s try again.''),
                    Gather \<lparr>input = ''speech'', action = ''/gather'', http_method = ''POST'',
                            timeout = 5, speech_timeout = ''auto''\<rparr>
                      [Say ''Could you repeat that?'']],
                   conversations)
         else (case conversations call_sid of
                 None \<Rightarrow> Inl KeyError
               | Some h \<Rightarrow>
                   (let history1 = h @ [\<lparr>role = ''user'', content = user_speech\<rparr>];
                        (reply_text, history2) =
                          (case groq history1 of
                             Some c \<Rightarrow> (c, history1 @ [\<lparr>role = ''assistant'', content = c\<rparr>])
                           | None \<Rightarrow> (''Sorry, I am facing a technical issue right now.'', history1))
                    in Inr ([Gather \<lparr>input = ''speech'', action = ''/gather'', http_method = ''POST'',
                                     timeout = 5, speech_timeout = ''auto''\<rparr> [Say reply_text],
                             Say ''I did not hear anything. Goodbye.''],
                            conversations(call_sid \<mapsto> history2)))))"

section \<open>Sequences of webhook requests\<close>

text \<open>
  The store lives as long as the process. A run of the process is the list of the
  requests it serves, each \<^verbatim>\<open>/gather\<close> with what the provider answers to it. A request
  that raises is answered with status 500 and the process goes on with the store as the
  handler left it; \<^verbatim>\<open>gather\<close> of \<^verbatim>\<open>forUI.py\<close> raises before it writes.
\<close>

datatype request =
    VoiceReq form
  | GatherReq provider form

fun server_handle :: "request \<Rightarrow> (string \<rightharpoonup> turn list) \<Rightarrow> verb list \<times> (string \<rightharpoonup> turn list)" where
  "server_handle (VoiceReq frm) conversations = server_voice frm conversations"
| "server_handle (GatherReq p frm) conversations = server_gather p frm conversations"

definition server_serve :: "request list \<Rightarrow> (string \<rightharpoonup> turn list) \<Rightarrow> (string \<rightharpoonup> turn list)" where
  "server_serve rs conversations = fold (\<lambda>r c. snd (server_handle r c)) rs conversations"

fun forUI_handle ::
  "request \<Rightarrow> (string option \<rightharpoonup> turn list) \<Rightarrow> exn + verb list \<times> (string option \<rightharpoonup> turn list)"
where
  "forUI_handle (VoiceReq vals) conversations = Inr (forUI_voice vals conversations)"
| "forUI_handle (GatherReq p vals) conversations = forUI_gather p vals conversations"

definition forUI_after :: "request \<Rightarrow> (string option \<rightharpoonup> turn list) \<Rightarrow> (string option \<rightharpoonup> turn list)" where
  "forUI_after r conversations =
     (case forUI_handle r conversations of Inl e \<Rightarrow> conversations | Inr (vr, c) \<Rightarrow> c)"

definition forUI_serve ::
  "request list \<Rightarrow> (string option \<rightharpoonup> turn list) \<Rightarrow> (string option \<rightharpoonup> turn list)"
where
  "forUI_serve rs conversations = fold forUI_after rs conversations"

text \<open>The call identifiers of the \<^verbatim>\<open>/voice\<close> requests of a run.\<close>

fun voice_sids :: "request list \<Rightarrow> string option list" where
  "voice_sids [] = []"
| "voice_sids (VoiceReq vals # rs) = vals ''CallSid'' # voice_sids rs"
| "voice_sids (GatherReq p vals # rs) = voice_sids rs"

section \<open>Stored values\<close>

text \<open>
  The body of a request to the administrative API and the fields of a stored document are
  values of the JSON data model as Python holds them after parsing: \<open>JNull\<close> is
  \<^verbatim>\<open>None\<close>, \<open>JObj\<close> holds the items of a \<^verbatim>\<open>dict\<close>. A number is held by its
  value (the non-finite floats are left out; like every number other than zero they are true).
\<close>

datatype json =
    JNull
  | JBool bool
  | JNum rat
  | JStr string
  | JArr "json list"
  | JObj "(string \<times> json) list"

text \<open>The truth value Python gives to a value in \<^verbatim>\<open>if not v\<close>.\<close>

fun truthy :: "json \<Rightarrow> bool" where
  "truthy JNull = False"
| "truthy (JBool b) = b"
| "truthy (JNum n) = (n \<noteq> 0)"
| "truthy (JStr s) = (s \<noteq> [])"
| "truthy (JArr vs) = (vs \<noteq> [])"
| "truthy (JObj kvs) = (kvs \<noteq> [])"

text \<open>\<^verbatim>\<open>d.get(k)\<close> is \<^verbatim>\<open>None\<close> for a key that is not in the dictionary.\<close>

definition dict_get :: "(string \<times> json) list \<Rightarrow> string \<Rightarrow> json" where
  "dict_get d k = (case map_of d k of None \<Rightarrow> JNull | Some v \<Rightarrow> v)"

definition dict_set :: "(string \<times> json) list \<Rightarrow> string \<Rightarrow> json \<Rightarrow> (string \<times> json) list" where
  "dict_set d k v =
     (if map_of d k = None then d @ [(k, v)]
      else map (\<lambda>(k', v'). if k' = k then (k', v) else (k', v')) d)"

text \<open>
  The collection \<^verbatim>\<open>scheduledCalls\<close> of the document store: identifiers with the fields
  of their documents, in the order in which a query streams them.
\<close>

type_synonym collection = "(string \<times> (string \<times> json) list) list"

section \<open>\<^verbatim>\<open>forUI.py\<close>: administrative API\<close>

text \<open>
  \<open>api_schedule\<close> takes the parsed body \<^verbatim>\<open>request.json\<close>, the text of
  \<^verbatim>\<open>datetime.utcnow().isoformat()\<close> and what the store answers to \<^verbatim>\<open>add\<close>: the
  identifier it gives the new document, or \<open>None\<close> when it raises. The result is the
  status and the body of the response with the collection, or the exception that escapes
  the handler (answered with status 500).
\<close>

definition api_schedule ::
  "string option \<Rightarrow> string \<Rightarrow> json \<Rightarrow> collection \<Rightarrow> exn + (nat \<times> json) \<times> collection"
where
  "api_schedule added utcnow data scheduledCalls =
     (case data of
        JObj d \<Rightarrow>
          (let phone = dict_get d ''phone'';
               scheduled_at = dict_get d ''scheduledAt''
           in if \<not> truthy phone \<or> \<not> truthy scheduled_at
              then Inr ((400, JObj [(''error'', JStr ''Missing fields'')]), scheduledCalls)
              else (case added of
                      None \<Rightarrow> Inl ExternalError
                    | Some doc_id \<Rightarrow>
                        Inr ((200, JObj [(''success'', JBool True)]),
                             scheduledCalls @
                               [(doc_id, [(''phoneNumber'', phone),
                                          (''scheduledAt'', scheduled_at),
                                          (''status'', JStr ''pending''),
                                          (''createdAt'', JStr utcnow)])])))
      | _ \<Rightarrow> Inl AttributeError)"

section \<open>Scheduled calls\<close>

text \<open>
  The document store and the telephony provider are outside the repository. One poll
  cycle meets them through \<open>collaborators\<close>: whether the query succeeds, how the
  provider answers a call to a number, and whether the update of a document succeeds.
  A call is \<open>Placed\<close>, \<open>Rejected\<close> by the provider with an error response, or the
  provider is \<open>Unreachable\<close>.
\<close>

datatype outcome = Placed | Rejected | Unreachable

record collaborators =
  query_ok :: bool
  call :: "json \<Rightarrow> outcome"
  update_ok :: "string \<Rightarrow> bool"

text \<open>
  What a cycle does is recorded in order: the lines it prints, the requests to the
  telephony provider, the updates of the store. \<open>Dispatch i\<close> marks that the loop
  invokes \<^verbatim>\<open>make_call\<close> for the document \<open>i\<close>.
\<close>

datatype printed =
    CronChecking
  | CurrentTime string
  | DueCallFound json
  | StartingCall json
  | CallInitiated
  | ErrorMakingCall
  | TwilioResponse
  | MarkedProcessed
  | NoPendingCalls
  | CronError

datatype effect =
    Print printed
  | Dispatch string
  | PlaceCall json
  | SetStatus string string

record dstate =
  scheduledCalls :: collection
  trace :: "effect list"

definition emit :: "effect list \<Rightarrow> dstate \<Rightarrow> dstate" where
  "emit es st = st\<lparr>trace := trace st @ es\<rparr>"

text \<open>The store orders strings by their UTF-8 bytes.\<close>

fun str_le :: "string \<Rightarrow> string \<Rightarrow> bool" where
  "str_le [] t = True"
| "str_le (a # s) [] = False"
| "str_le (a # s) (b # t) =
     ((of_char a :: nat) < of_char b \<or> (a = b \<and> str_le s t))"

text \<open>
  The query \<^verbatim>\<open>where("status", "==", "pending").where("scheduledAt", "<=", now_iso)\<close>;
  a bound that is a string selects string fields only.
\<close>

definition due :: "string \<Rightarrow> (string \<times> json) list \<Rightarrow> bool" where
  "due now_iso data =
     (dict_get data ''status'' = JStr ''pending'' \<and>
      (case dict_get data ''scheduledAt'' of JStr s \<Rightarrow> str_le s now_iso | _ \<Rightarrow> False))"

definition query_due :: "string \<Rightarrow> collection \<Rightarrow> collection" where
  "query_due now_iso c = filter (\<lambda>(i, data). due now_iso data) c"

text \<open>\<^verbatim>\<open>update({"status": "processed"})\<close> on the document \<open>i\<close>.\<close>

definition mark_processed :: "string \<Rightarrow> dstate \<Rightarrow> dstate" where
  "mark_processed i st =
     st\<lparr>scheduledCalls :=
           map (\<lambda>(j, data). if j = i then (j, dict_set data ''status'' (JStr ''processed''))
                            else (j, data)) (scheduledCalls st),
        trace := trace st @ [SetStatus i ''processed'']\<rparr>"

subsection \<open>\<^verbatim>\<open>server.py\<close>\<close>

text \<open>\<^verbatim>\<open>make_call\<close> catches every exception of the provider's client and prints it.\<close>

definition server_make_call :: "collaborators \<Rightarrow> json \<Rightarrow> dstate \<Rightarrow> dstate" where
  "server_make_call x phone_number st =
     (let st1 = emit [Print (StartingCall phone_number), PlaceCall phone_number] st
      in if call x phone_number = Placed then emit [Print CallInitiated] st1
         else emit [Print ErrorMakingCall] st1)"

text \<open>
  The body of the loop of \<^verbatim>\<open>check_scheduled_calls\<close> on one streamed document, with the
  flag \<^verbatim>\<open>processed_any\<close>. \<open>Inl\<close> is an exception on its way to the handler of the
  cycle, with the state it leaves behind.
\<close>

definition server_each ::
  "collaborators \<Rightarrow> string \<times> (string \<times> json) list \<Rightarrow> dstate \<times> bool \<Rightarrow> dstate + dstate \<times> bool"
where
  "server_each x d s =
     (case (d, s) of
        ((i, data), (st, processed_any)) \<Rightarrow>
          (let phone = dict_get data ''phoneNumber'';
               st1 = emit [Print (DueCallFound phone)] st
           in if truthy phone
              then (let st2 = server_make_call x phone (emit [Dispatch i] st1)
                    in if update_ok x i then Inr (mark_processed i st2, True) else Inl st2)
              else Inr (st1, processed_any)))"

fun server_loop ::
  "collaborators \<Rightarrow> collection \<Rightarrow> dstate \<times> bool \<Rightarrow> dstate + dstate \<times> bool"
where
  "server_loop x [] s = Inr s"
| "server_loop x (d # docs) s =
     (case server_each x d s of Inl st \<Rightarrow> Inl st | Inr s' \<Rightarrow> server_loop x docs s')"

definition check_scheduled_calls :: "collaborators \<Rightarrow> string \<Rightarrow> dstate \<Rightarrow> dstate" where
  "check_scheduled_calls x now_iso st =
     (let st1 = emit [Print CronChecking, Print (CurrentTime now_iso)] st
      in if \<not> query_ok x then emit [Print CronError] st1
         else (case server_loop x (query_due now_iso (scheduledCalls st1)) (st1, False) of
                 Inl st2 \<Rightarrow> emit [Print CronError] st2
               | Inr (st2, processed_any) \<Rightarrow>
                   emit [Print (if processed_any then MarkedProcessed else NoPendingCalls)] st2))"

text \<open>
  The scheduler runs \<^verbatim>\<open>check_scheduled_calls\<close> every minute, one run after the other.
  A run of the process is the list of its cycles, each with the collaborators and the
  clock it meets.
\<close>

definition server_scheduler :: "(collaborators \<times> string) list \<Rightarrow> dstate \<Rightarrow> dstate" where
  "server_scheduler cycles st = fold (\<lambda>(x, now_iso). check_scheduled_calls x now_iso) cycles st"

subsection \<open>\<^verbatim>\<open>forUI.py\<close>\<close>

text \<open>
  \<^verbatim>\<open>make_call\<close> posts to the provider and prints the response, whatever its status;
  an exception of \<^verbatim>\<open>requests.post\<close> is not caught here.
\<close>

definition forUI_make_call :: "collaborators \<Rightarrow> json \<Rightarrow> dstate \<Rightarrow> dstate + dstate" where
  "forUI_make_call x phone st =
     (let st1 = emit [Print (StartingCall phone), PlaceCall phone] st
      in if call x phone = Unreachable then Inl st1 else Inr (emit [Print TwilioResponse] st1))"

definition forUI_each ::
  "collaborators \<Rightarrow> string \<times> (string \<times> json) list \<Rightarrow> dstate \<Rightarrow> dstate + dstate"
where
  "forUI_each x d st =
     (case d of
        (i, data) \<Rightarrow>
          (case map_of data ''phoneNumber'' of
             None \<Rightarrow> Inl st
           | Some phone \<Rightarrow>
               (case forUI_make_call x phone (emit [Print (DueCallFound phone), Dispatch i] st) of
                  Inl st2 \<Rightarrow> Inl st2
                | Inr st2 \<Rightarrow>
                    if update_ok x i then Inr (emit [Print MarkedProcessed] (mark_processed i st2))
                    else Inl st2)))"

fun forUI_loop :: "collaborators \<Rightarrow> collection \<Rightarrow> dstate \<Rightarrow> dstate + dstate" where
  "forUI_loop x [] st = Inr st"
| "forUI_loop x (d # docs) st =
     (case forUI_each x d st of Inl st' \<Rightarrow> Inl st' | Inr st' \<Rightarrow> forUI_loop x docs st')"

text \<open>One turn of the \<^verbatim>\<open>while True\<close> loop of \<^verbatim>\<open>cron_job\<close>, up to the sleep.\<close>

definition cron_cycle :: "collaborators \<Rightarrow> string \<Rightarrow> dstate \<Rightarrow> dstate" where
  "cron_cycle x now_iso st =
     (let st1 = emit [Print CronChecking, Print (CurrentTime now_iso)] st
      in if \<not> query_ok x then emit [Print CronError] st1
         else (let pending = query_due now_iso (scheduledCalls st1)
               in if pending = [] then emit [Print NoPendingCalls] st1
                  else (case forUI_loop x pending st1 of
                          Inl st2 \<Rightarrow> emit [Print CronError] st2
                        | Inr st2 \<Rightarrow> st2)))"

text \<open>
  \<^verbatim>\<open>cron_job\<close> never returns. Its first turns are given by the list of what each turn
  meets; the state after them is the state of the process at that moment.
\<close>

definition cron_job :: "(collaborators \<times> string) list \<Rightarrow> dstate \<Rightarrow> dstate" where
  "cron_job cycles st = fold (\<lambda>(x, now_iso). cron_cycle x now_iso) cycles st"

text \<open>The documents for which \<^verbatim>\<open>make_call\<close> was invoked, in order.\<close>

fun dispatched :: "effect list \<Rightarrow> string list" where
  "dispatched [] = []"
| "dispatched (Dispatch i # es) = i # dispatched es"
| "dispatched (e # es) = dispatched es"

text \<open>The status field of the document \<open>i\<close> of a collection.\<close>

definition status_of :: "collection \<Rightarrow> string \<Rightarrow> json option" where
  "status_of c i = map_option (\<lambda>data. dict_get data ''status'') (map_of c i)"

section \<open>Start of the process\<close>







section \<open>Auxiliary notions\<close>

text \<open>
  The documents for which a loop over \<open>docs\<close> invokes \<^verbatim>\<open>make_call\<close> when nothing
  raises on the way: \<^verbatim>\<open>server.py\<close> skips a document whose phone number is false,
  \<^verbatim>\<open>forUI.py\<close> raises \<^verbatim>\<open>KeyError\<close> at the first document without one.
\<close>

definition server_selects :: "collection \<Rightarrow> string list" where
  "server_selects docs = map fst (filter (\<lambda>(i, data). truthy (dict_get data ''phoneNumber'')) docs)"

definition forUI_selects :: "collection \<Rightarrow> string list" where
  "forUI_selects docs = map fst (takeWhile (\<lambda>(i, data). map_of data ''phoneNumber'' \<noteq> None) docs)"

text \<open>
  The invariant of a run in which every update succeeds: identifiers are unique, no
  document was dispatched twice, and every dispatched document is marked processed.
\<close>

definition dispatch_inv :: "dstate \<Rightarrow> bool" where
  "dispatch_inv st \<longleftrightarrow>
     distinct (map fst (scheduledCalls st)) \<and> distinct (dispatched (trace st)) \<and>
     (\<forall>i \<in> set (dispatched (trace st)). status_of (scheduledCalls st) i = Some (JStr ''processed''))"

text \<open>
  The order of calls and updates in what a cycle records. Between two documents nothing is
  pending; \<open>Dispatch i\<close> opens the document \<open>i\<close>, a request to the provider is allowed
  once for the open document, and an update is allowed only after that request, for that
  document, to the status processed. \<open>in_order cur es\<close> holds when the effects \<open>es\<close> keep
  to this from the state \<open>cur\<close>: the open document, and whether its request was made.
\<close>

fun in_order :: "(string \<times> bool) option \<Rightarrow> effect list \<Rightarrow> bool" where
  "in_order cur [] = True"
| "in_order cur (Print l # es) = in_order cur es"
| "in_order cur (Dispatch i # es) = in_order (Some (i, False)) es"
| "in_order cur (PlaceCall ph # es) =
     (case cur of Some (i, False) \<Rightarrow> in_order (Some (i, True)) es | _ \<Rightarrow> False)"
| "in_order cur (SetStatus i v # es) =
     (cur = Some (i, True) \<and> v = ''processed'' \<and> in_order None es)"

text \<open>The collection after the updates that a record holds, in their order.\<close>

fun replay :: "effect list \<Rightarrow> collection \<Rightarrow> collection" where
  "replay [] c = c"
| "replay (SetStatus i v # es) c =
     replay es (map (\<lambda>(j, data). if j = i then (j, dict_set data ''status'' (JStr v))
                                 else (j, data)) c)"
| "replay (Print l # es) c = replay es c"
| "replay (Dispatch i # es) c = replay es c"
| "replay (PlaceCall ph # es) c = replay es c"

text \<open>Effects that are in order from every state.\<close>

definition fresh :: "effect list \<Rightarrow> bool" where
  "fresh es \<longleftrightarrow> (\<forall>cur. in_order cur es)"

text \<open>
  The task of the scenario of the specification, and collaborators that never fail.
\<close>

definition due_task :: "(string \<times> json) list" where
  "due_task = [(''phoneNumber'', JStr ''+15551234567''),
               (''scheduledAt'', JStr ''2024-01-01T00:00:00Z''),
               (''status'', JStr ''pending''),
               (''createdAt'', JStr ''2023-12-31T12:00:00'')]"

definition reliable :: collaborators where
  "reliable = \<lparr>query_ok = True, call = (\<lambda>ph. Placed), update_ok = (\<lambda>i. True)\<rparr>"

section \<open>Stripping of the texts used in the examples\<close>

lemma strip_blank: "strip [] = []" "strip '' '' = []"
  by (simp_all add: strip_def lstrip.simps lead_def whitespace_def)

lemma strip_hello: "strip ''hello'' = ''hello''"
  by (simp add: strip_def lstrip.simps lead_def whitespace_def)



lemma strip_yes_I_did: "strip ''yes I did'' = ''yes I did''"
  by (simp add: strip_def lstrip.simps lead_def whitespace_def)

section \<open>One request\<close>

lemma server_gather_blank:
  "strip (case frm ''SpeechResult'' of None \<Rightarrow> [] | Some v \<Rightarrow> v) = [] \<Longrightarrow>
   server_gather p frm c =
     ([Say ''I did not catch that. Please say it again.'', Redirect ''/voice''], c)"
  by (simp add: server_gather_def Let_def)

lemma server_gather_speech:
  "strip (case frm ''SpeechResult'' of None \<Rightarrow> [] | Some v \<Rightarrow> v) \<noteq> [] \<Longrightarrow>
   snd (server_gather p frm c) =
     snd (generate_ai_reply p (case frm ''CallSid'' of None \<Rightarrow> ''unknown'' | Some v \<Rightarrow> v)
            (case frm ''SpeechResult'' of None \<Rightarrow> [] | Some v \<Rightarrow> v) c)"
  by (simp add: server_gather_def Let_def split: prod.splits)


lemma server_gather_listens:
  "strip (case frm ''SpeechResult'' of None \<Rightarrow> [] | Some v \<Rightarrow> v) \<noteq> [] \<Longrightarrow>
   listens (fst (server_gather p frm c))"
  by (simp add: server_gather_def Let_def listens_def split: prod.splits)

lemma generate_ai_reply_other: "k \<noteq> call_sid \<Longrightarrow> snd (generate_ai_reply p call_sid t c) k = c k"
  by (simp add: generate_ai_reply_def Let_def)



lemma forUI_gather_blank:
  "strip (case vals ''SpeechResult'' of None \<Rightarrow> [] | Some v \<Rightarrow> v) = [] \<Longrightarrow>
   forUI_gather p vals c =
     Inr ([Say (''Sorry, I didn't catch that. Let'' @ [CHR 0xE2, CHR 0x80, CHR 0x99] @ ''s try again.''),
           Gather \<lparr>input = ''speech'', action = ''/gather'', http_method = ''POST'', timeout = 5,
                   speech_timeout = ''auto''\<rparr> [Say ''Could you repeat that?'']], c)"
  by (simp add: forUI_gather_def Let_def)

lemma forUI_gather_answered:
  assumes "strip (case vals ''SpeechResult'' of None \<Rightarrow> [] | Some v \<Rightarrow> v) = t" and "t \<noteq> []"
    and "c (vals ''CallSid'') = Some h"
    and "p (h @ [\<lparr>role = ''user'', content = t\<rparr>]) = Some r"
  shows "forUI_gather p vals c =
     Inr ([Gather \<lparr>input = ''speech'', action = ''/gather'', http_method = ''POST'', timeout = 5,
                   speech_timeout = ''auto''\<rparr> [Say r],
           Say ''I did not hear anything. Goodbye.''],
          c(vals ''CallSid'' \<mapsto> h @ [\<lparr>role = ''user'', content = t\<rparr>,
                                     \<lparr>role = ''assistant'', content = r\<rparr>]))"
  using assms by (simp add: forUI_gather_def Let_def)

lemma forUI_gather_failed:
  assumes "strip (case vals ''SpeechResult'' of None \<Rightarrow> [] | Some v \<Rightarrow> v) = t" and "t \<noteq> []"
    and "c (vals ''CallSid'') = Some h"
    and "p (h @ [\<lparr>role = ''user'', content = t\<rparr>]) = None"
  shows "forUI_gather p vals c =
     Inr ([Gather \<lparr>input = ''speech'', action = ''/gather'', http_method = ''POST'', timeout = 5,
                   speech_timeout = ''auto''\<rparr>
             [Say ''Sorry, I am facing a technical issue right now.''],
           Say ''I did not hear anything. Goodbye.''],
          c(vals ''CallSid'' \<mapsto> h @ [\<lparr>role = ''user'', content = t\<rparr>]))"
  using assms by (simp add: forUI_gather_def Let_def)

lemma forUI_gather_listens:
  "strip (case vals ''SpeechResult'' of None \<Rightarrow> [] | Some v \<Rightarrow> v) \<noteq> [] \<Longrightarrow>
   c (vals ''CallSid'') \<noteq> None \<Longrightarrow>
   \<exists>vr c'. forUI_gather p vals c = Inr (vr, c') \<and> listens vr"
  by (auto simp: forUI_gather_def Let_def listens_def split: prod.splits option.splits)

lemma server_serve_blank:
  "strip (case frm ''SpeechResult'' of None \<Rightarrow> [] | Some v \<Rightarrow> v) = [] \<Longrightarrow>
   server_serve (replicate n (GatherReq p frm)) c = c"
  by (induction n) (simp_all add: server_serve_def server_gather_blank)

lemma forUI_serve_blank:
  "strip (case vals ''SpeechResult'' of None \<Rightarrow> [] | Some v \<Rightarrow> v) = [] \<Longrightarrow>
   forUI_serve (replicate n (GatherReq p vals)) c = c"
  by (induction n) (simp_all add: forUI_serve_def forUI_after_def forUI_gather_blank)

section \<open>\<^verbatim>\<open>server.py\<close>: requests without call identifier\<close>

text \<open>
  C9. In \<^verbatim>\<open>server.py\<close> a request to \<^verbatim>\<open>/gather\<close> without the field \<^verbatim>\<open>CallSid\<close>
  whose speech is blank appends nothing to the history stored under \<^verbatim>\<open>unknown\<close>, and
  neither does a request to \<^verbatim>\<open>/voice\<close> when that history exists.
\<close>

theorem server_unknown_not_appended_counterexample:
  "server_gather (\<lambda>h. Some ''ok'') [''SpeechResult'' \<mapsto> '' '']
     [''unknown'' \<mapsto> [\<lparr>role = ''system'', content = SYSTEM_PROMPT\<rparr>]]
   = ([Say ''I did not catch that. Please say it again.'', Redirect ''/voice''],
      [''unknown'' \<mapsto> [\<lparr>role = ''system'', content = SYSTEM_PROMPT\<rparr>]])
   \<and> snd (server_voice Map.empty [''unknown'' \<mapsto> [\<lparr>role = ''system'', content = SYSTEM_PROMPT\<rparr>]])
     = [''unknown'' \<mapsto> [\<lparr>role = ''system'', content = SYSTEM_PROMPT\<rparr>]]"
  by (simp add: server_gather_blank strip_blank server_voice_def)

text \<open>
  C9, amended. In \<^verbatim>\<open>server.py\<close>, a request to \<^verbatim>\<open>/voice\<close> or \<^verbatim>\<open>/gather\<close> without
  the field \<^verbatim>\<open>CallSid\<close> is handled as the request with the call identifier
  \<^verbatim>\<open>unknown\<close>, so all such requests, whichever call they belong to, share the one
  history stored under that key and touch no other: \<^verbatim>\<open>/voice\<close> answers with the
  greeting and creates that history, with the turn of the system, when it is absent;
  \<^verbatim>\<open>/gather\<close> with speech that is not blank sends that history with the new turn of
  the user to the provider and appends this turn and the reply to it; \<^verbatim>\<open>/gather\<close>
  with blank speech reads and writes no history.
\<close>

theorem server_missing_CallSid_unknown:
  fixes frm :: form and c :: "string \<rightharpoonup> turn list" and p :: provider
  assumes "frm ''CallSid'' = None"
  defines "t \<equiv> (case frm ''SpeechResult'' of None \<Rightarrow> [] | Some v \<Rightarrow> v)"
  defines "h0 \<equiv> (case c ''unknown'' of
                    None \<Rightarrow> [\<lparr>role = ''system'', content = SYSTEM_PROMPT\<rparr>] | Some h \<Rightarrow> h)"
  defines "reply \<equiv> (case p (h0 @ [\<lparr>role = ''user'', content = t\<rparr>]) of
                       Some r \<Rightarrow> strip r
                     | None \<Rightarrow> ''Sorry, I am having trouble right now. We will contact you again later.'')"
  shows "server_voice frm c = server_voice (frm(''CallSid'' \<mapsto> ''unknown'')) c
       \<and> server_gather p frm c = server_gather p (frm(''CallSid'' \<mapsto> ''unknown'')) c
       \<and> (\<forall>k. k \<noteq> ''unknown'' \<longrightarrow>
             snd (server_voice frm c) k = c k \<and> snd (server_gather p frm c) k = c k)
       \<and> server_voice frm c
           = ([Pause 1,
               Gather \<lparr>input = ''speech'', action = ''/gather'', http_method = ''POST'', timeout = 8,
                       speech_timeout = ''auto''\<rparr>
                 [Say (''Hello, this is Arjun from customer support. ''
                       @ ''I would like to ask a few quick questions about your experience with our product. ''
                       @ ''Did you recently buy our product?'')],
               Say ''I did not hear anything. Let me try once more.'',
               Redirect ''/voice''],
              c(''unknown'' \<mapsto> h0))
       \<and> (strip t = [] \<longrightarrow>
             server_gather p frm c
               = ([Say ''I did not catch that. Please say it again.'', Redirect ''/voice''], c))
       \<and> (strip t \<noteq> [] \<longrightarrow>
             server_gather p frm c
               = ([Gather \<lparr>input = ''speech'', action = ''/gather'', http_method = ''POST'',
                          timeout = 8, speech_timeout = ''auto''\<rparr> [Say reply],
                   Say (''I did not hear anything. I will end this call now. ''
                        @ ''Thank you for your time. Goodbye.'')],
                  c(''unknown'' \<mapsto>
                      drop (length h0 + 2 - 10)
                        (h0 @ [\<lparr>role = ''user'', content = t\<rparr>,
                               \<lparr>role = ''assistant'', content = reply\<rparr>]))))"
proof -
  have v: "server_voice frm c = server_voice (frm(''CallSid'' \<mapsto> ''unknown'')) c"
    using assms(1) by (simp add: server_voice_def)
  have g: "server_gather p frm c = server_gather p (frm(''CallSid'' \<mapsto> ''unknown'')) c"
    using assms(1) by (simp add: server_gather_def)
  have o: "snd (server_voice frm c) k = c k \<and> snd (server_gather p frm c) k = c k"
    if "k \<noteq> ''unknown''" for k
  proof (cases "strip t = []")
    case True
    with that assms(1) show ?thesis
      by (simp add: t_def server_gather_blank) (simp add: server_voice_def Let_def split: option.splits)
  next
    case False
    with that assms(1) show ?thesis
      by (simp add: t_def server_gather_speech generate_ai_reply_other)
         (simp add: server_voice_def Let_def split: option.splits)
  qed
  have w: "server_voice frm c
           = ([Pause 1,
               Gather \<lparr>input = ''speech'', action = ''/gather'', http_method = ''POST'', timeout = 8,
                       speech_timeout = ''auto''\<rparr>
                 [Say (''Hello, this is Arjun from customer support. ''
                       @ ''I would like to ask a few quick questions about your experience with our product. ''
                       @ ''Did you recently buy our product?'')],
               Say ''I did not hear anything. Let me try once more.'',
               Redirect ''/voice''],
              c(''unknown'' \<mapsto> h0))"
    using assms(1) by (auto simp: server_voice_def Let_def h0_def split: option.splits)
  have b: "server_gather p frm c
               = ([Say ''I did not catch that. Please say it again.'', Redirect ''/voice''], c)"
    if "strip t = []"
    using that by (simp add: t_def server_gather_blank)
  have a: "server_gather p frm c
               = ([Gather \<lparr>input = ''speech'', action = ''/gather'', http_method = ''POST'',
                          timeout = 8, speech_timeout = ''auto''\<rparr> [Say reply],
                   Say (''I did not hear anything. I will end this call now. ''
                        @ ''Thank you for your time. Goodbye.'')],
                  c(''unknown'' \<mapsto>
                      drop (length h0 + 2 - 10)
                        (h0 @ [\<lparr>role = ''user'', content = t\<rparr>,
                               \<lparr>role = ''assistant'', content = reply\<rparr>])))"
    if "strip t \<noteq> []"
    using that assms(1)
    by (simp add: server_gather_def generate_ai_reply_def Let_def t_def h0_def reply_def)
  from v g o w a b show ?thesis by blast
qed

text \<open>
  A request without call identifier continues the history another call left under
  \<^verbatim>\<open>unknown\<close>, and the first \<^verbatim>\<open>/voice\<close> without one creates it.
\<close>

theorem server_missing_CallSid_unknown_witness:
  "[''SpeechResult'' \<mapsto> ''hello''] ''CallSid'' = None
   \<and> server_gather (\<lambda>h. None) [''SpeechResult'' \<mapsto> ''hello'']
          [''unknown'' \<mapsto> [\<lparr>role = ''system'', content = SYSTEM_PROMPT\<rparr>,
                            \<lparr>role = ''user'', content = ''said on another call''\<rparr>,
                            \<lparr>role = ''assistant'', content = ''ok''\<rparr>]]
   = ([Gather \<lparr>input = ''speech'', action = ''/gather'', http_method = ''POST'',
              timeout = 8, speech_timeout = ''auto''\<rparr>
         [Say ''Sorry, I am having trouble right now. We will contact you again later.''],
       Say (''I did not hear anything. I will end this call now. ''
            @ ''Thank you for your time. Goodbye.'')],
      [''unknown'' \<mapsto>
         [\<lparr>role = ''system'', content = SYSTEM_PROMPT\<rparr>,
          \<lparr>role = ''user'', content = ''said on another call''\<rparr>,
          \<lparr>role = ''assistant'', content = ''ok''\<rparr>,
          \<lparr>role = ''user'', content = ''hello''\<rparr>,
          \<lparr>role = ''assistant'',
           content = ''Sorry, I am having trouble right now. We will contact you again later.''\<rparr>]])
   \<and> snd (server_voice Map.empty Map.empty)
     = [''unknown'' \<mapsto> [\<lparr>role = ''system'', content = SYSTEM_PROMPT\<rparr>]]"
  using server_missing_CallSid_unknown
    [of "[''SpeechResult'' \<mapsto> ''hello'']"
        "[''unknown'' \<mapsto> [\<lparr>role = ''system'', content = SYSTEM_PROMPT\<rparr>,
                            \<lparr>role = ''user'', content = ''said on another call''\<rparr>,
                            \<lparr>role = ''assistant'', content = ''ok''\<rparr>]]" "\<lambda>h. None",
     THEN conjunct2, THEN conjunct2, THEN conjunct2, THEN conjunct2, THEN conjunct2]
     server_missing_CallSid_unknown
    [of Map.empty Map.empty "\<lambda>h. None",
     THEN conjunct2, THEN conjunct2, THEN conjunct2, THEN conjunct1]
  by (simp add: strip_hello)

section \<open>\<^verbatim>\<open>forUI.py\<close>: a session exists only after \<^verbatim>\<open>/voice\<close>\<close>

lemma forUI_voice_dom: "dom (snd (forUI_voice vals c)) = insert (vals ''CallSid'') (dom c)"
  by (auto simp: forUI_voice_def Let_def split: option.splits)

lemma forUI_gather_dom: "forUI_gather p vals c = Inr (vr, c') \<Longrightarrow> dom c' = dom c"
  by (auto simp: forUI_gather_def Let_def split: if_splits option.splits prod.splits)

lemma forUI_after_dom: "dom (forUI_after r c) \<subseteq> dom c \<union> set (voice_sids [r])"
proof (cases r)
  case (VoiceReq vals)
  then show ?thesis
    using forUI_voice_dom [of vals c] by (auto simp: forUI_after_def split: prod.splits)
next
  case (GatherReq p vals)
  then show ?thesis
  proof (cases "forUI_gather p vals c")
    case (Inl e)
    with GatherReq show ?thesis by (simp add: forUI_after_def)
  next
    case (Inr x)
    then obtain vr c' where "forUI_gather p vals c = Inr (vr, c')" by (cases x) auto
    with GatherReq forUI_gather_dom [of p vals c vr c'] show ?thesis
      by (simp add: forUI_after_def)
  qed
qed

lemma voice_sids_Cons: "set (voice_sids (r # rs)) = set (voice_sids [r]) \<union> set (voice_sids rs)"
  by (cases r) auto

lemma forUI_serve_dom: "dom (forUI_serve rs c) \<subseteq> dom c \<union> set (voice_sids rs)"
proof (induction rs arbitrary: c)
  case Nil
  then show ?case by (simp add: forUI_serve_def)
next
  case (Cons r rs)
  have "dom (forUI_serve (r # rs) c) \<subseteq> dom (forUI_after r c) \<union> set (voice_sids rs)"
    using Cons.IH [of "forUI_after r c"] by (simp add: forUI_serve_def)
  also have "\<dots> \<subseteq> dom c \<union> set (voice_sids [r]) \<union> set (voice_sids rs)"
    using forUI_after_dom [of r c] by blast
  finally show ?case
    unfolding voice_sids_Cons [of r rs] by blast
qed

text \<open>
  C10. In \<^verbatim>\<open>forUI.py\<close> a speech result of one space is not empty; for a call
  identifier that \<^verbatim>\<open>/voice\<close> never saw it is answered with the prompt to say it again,
  and nothing is raised.
\<close>

theorem forUI_blank_unseen_counterexample:
  "forUI_gather (\<lambda>h. None) [''CallSid'' \<mapsto> ''CA2'', ''SpeechResult'' \<mapsto> '' '']
     (forUI_serve [VoiceReq [''CallSid'' \<mapsto> ''CA1'']] Map.empty)
   = Inr ([Say (''Sorry, I didn't catch that. Let'' @ [CHR 0xE2, CHR 0x80, CHR 0x99]
                @ ''s try again.''),
           Gather \<lparr>input = ''speech'', action = ''/gather'', http_method = ''POST'', timeout = 5,
                   speech_timeout = ''auto''\<rparr> [Say ''Could you repeat that?'']],
          forUI_serve [VoiceReq [''CallSid'' \<mapsto> ''CA1'']] Map.empty)"
  by (simp add: forUI_gather_blank strip_blank)

text \<open>
  C10, amended. In \<^verbatim>\<open>forUI.py\<close>, a request to \<^verbatim>\<open>/gather\<close> for a call identifier
  that no request to \<^verbatim>\<open>/voice\<close> has carried since the process started raises
  \<^verbatim>\<open>KeyError\<close> when its speech is not blank, that is not empty once stripped: the
  handler answers with no document, since the session is not created on this path. When
  the speech is blank the handler answers with the prompt to say it again and leaves the
  store as it is.
\<close>

theorem forUI_gather_unseen_CallSid:
  assumes "vals ''CallSid'' \<notin> set (voice_sids rs)"
  shows "(strip (case vals ''SpeechResult'' of None \<Rightarrow> [] | Some v \<Rightarrow> v) \<noteq> [] \<longrightarrow>
            forUI_gather groq vals (forUI_serve rs Map.empty) = Inl KeyError)
       \<and> (strip (case vals ''SpeechResult'' of None \<Rightarrow> [] | Some v \<Rightarrow> v) = [] \<longrightarrow>
            forUI_gather groq vals (forUI_serve rs Map.empty)
              = Inr ([Say (''Sorry, I didn't catch that. Let'' @ [CHR 0xE2, CHR 0x80, CHR 0x99]
                           @ ''s try again.''),
                      Gather \<lparr>input = ''speech'', action = ''/gather'', http_method = ''POST'',
                              timeout = 5, speech_timeout = ''auto''\<rparr>
                        [Say ''Could you repeat that?'']],
                     forUI_serve rs Map.empty))"
proof (intro conjI impI)
  assume s: "strip (case vals ''SpeechResult'' of None \<Rightarrow> [] | Some v \<Rightarrow> v) \<noteq> []"
  have "vals ''CallSid'' \<notin> dom (forUI_serve rs Map.empty)"
    using forUI_serve_dom [of rs Map.empty] assms by auto
  then have "forUI_serve rs Map.empty (vals ''CallSid'') = None"
    by blast
  with s show "forUI_gather groq vals (forUI_serve rs Map.empty) = Inl KeyError"
    by (simp add: forUI_gather_def Let_def)
next
  assume "strip (case vals ''SpeechResult'' of None \<Rightarrow> [] | Some v \<Rightarrow> v) = []"
  then show "forUI_gather groq vals (forUI_serve rs Map.empty)
              = Inr ([Say (''Sorry, I didn't catch that. Let'' @ [CHR 0xE2, CHR 0x80, CHR 0x99]
                           @ ''s try again.''),
                      Gather \<lparr>input = ''speech'', action = ''/gather'', http_method = ''POST'',
                              timeout = 5, speech_timeout = ''auto''\<rparr>
                        [Say ''Could you repeat that?'']],
                     forUI_serve rs Map.empty)"
    by (rule forUI_gather_blank)
qed

text \<open>
The call CA2 speaks after only CA1 was started.
\<close>

theorem forUI_gather_unseen_CallSid_witness:
  "[''CallSid'' \<mapsto> ''CA2'', ''SpeechResult'' \<mapsto> ''yes I did''] ''CallSid''
     \<notin> set (voice_sids [VoiceReq [''CallSid'' \<mapsto> ''CA1'']])
   \<and> strip ''yes I did'' \<noteq> []
   \<and> forUI_gather (\<lambda>h. Some ''Great!'') [''CallSid'' \<mapsto> ''CA2'', ''SpeechResult'' \<mapsto> ''yes I did'']
     (forUI_serve [VoiceReq [''CallSid'' \<mapsto> ''CA1'']] Map.empty) = Inl KeyError"
  using forUI_gather_unseen_CallSid
    [of "[''CallSid'' \<mapsto> ''CA2'', ''SpeechResult'' \<mapsto> ''yes I did'']"
        "[VoiceReq [''CallSid'' \<mapsto> ''CA1'']]" "\<lambda>h. Some ''Great!''", THEN conjunct1]
  by (simp add: strip_yes_I_did)

section \<open>Silence\<close>

text \<open>
  C3. After \<^verbatim>\<open>/voice\<close> and one blank speech result, a second blank speech result is
  answered like the first, by a document that keeps the call going: \<^verbatim>\<open>server.py\<close>
  redirects to \<^verbatim>\<open>/voice\<close>, \<^verbatim>\<open>forUI.py\<close> listens again. Neither says goodbye,
  though the comments in both programs speak of one retry.
\<close>

theorem second_silence_reprompts:
  "server_gather (\<lambda>h. None) [''CallSid'' \<mapsto> ''CA1'', ''SpeechResult'' \<mapsto> '' '']
     (server_serve [VoiceReq [''CallSid'' \<mapsto> ''CA1''],
                    GatherReq (\<lambda>h. None) [''CallSid'' \<mapsto> ''CA1'', ''SpeechResult'' \<mapsto> '' '']]
        Map.empty)
   = ([Say ''I did not catch that. Please say it again.'', Redirect ''/voice''],
      [''CA1'' \<mapsto> [\<lparr>role = ''system'', content = SYSTEM_PROMPT\<rparr>]])
   \<and> listens [Say ''I did not catch that. Please say it again.'', Redirect ''/voice'']
   \<and> (case forUI_gather (\<lambda>h. None) [''CallSid'' \<mapsto> ''CA1'', ''SpeechResult'' \<mapsto> '' '']
            (forUI_serve [VoiceReq [''CallSid'' \<mapsto> ''CA1''],
                    GatherReq (\<lambda>h. None) [''CallSid'' \<mapsto> ''CA1'', ''SpeechResult'' \<mapsto> '' '']]
               Map.empty) of
         Inl e \<Rightarrow> False
       | Inr (vr, c) \<Rightarrow>
           vr = [Say (''Sorry, I didn't catch that. Let'' @ [CHR 0xE2, CHR 0x80, CHR 0x99]
                      @ ''s try again.''),
                 Gather \<lparr>input = ''speech'', action = ''/gather'', http_method = ''POST'',
                         timeout = 5, speech_timeout = ''auto''\<rparr> [Say ''Could you repeat that?'']]
           \<and> listens vr)"
  by (simp add: server_serve_def forUI_serve_def forUI_after_def server_gather_blank
        forUI_gather_blank strip_blank server_voice_def forUI_voice_def listens_def)

text \<open>
  The handlers keep no count: every blank speech result is answered by the same prompt,
  and the store is left as it is, whatever the number of blank results in a row.
\<close>

lemma blank_speech_reprompts:
  "(strip (case frm ''SpeechResult'' of None \<Rightarrow> [] | Some v \<Rightarrow> v) = [] \<longrightarrow>
      server_gather p frm c
        = ([Say ''I did not catch that. Please say it again.'', Redirect ''/voice''], c)
      \<and> forUI_gather p frm c'
        = Inr ([Say (''Sorry, I didn't catch that. Let'' @ [CHR 0xE2, CHR 0x80, CHR 0x99]
                     @ ''s try again.''),
                Gather \<lparr>input = ''speech'', action = ''/gather'', http_method = ''POST'',
                        timeout = 5, speech_timeout = ''auto''\<rparr> [Say ''Could you repeat that?'']],
               c')
      \<and> listens (fst (server_gather p frm c))
      \<and> server_serve (replicate n (GatherReq p frm)) c = c
      \<and> forUI_serve (replicate n (GatherReq p frm)) c' = c')
   \<and> (strip (case frm ''SpeechResult'' of None \<Rightarrow> [] | Some v \<Rightarrow> v) \<noteq> [] \<longrightarrow>
        listens (fst (server_gather p frm c))
        \<and> (c' (frm ''CallSid'') \<noteq> None \<longrightarrow>
             (\<exists>vr c''. forUI_gather p frm c' = Inr (vr, c'') \<and> listens vr)))"
proof (intro conjI impI)
  assume b: "strip (case frm ''SpeechResult'' of None \<Rightarrow> [] | Some v \<Rightarrow> v) = []"
  show "server_gather p frm c
        = ([Say ''I did not catch that. Please say it again.'', Redirect ''/voice''], c)"
    using b by (rule server_gather_blank)
  then show "listens (fst (server_gather p frm c))"
    by (simp add: listens_def)
  show "forUI_gather p frm c'
        = Inr ([Say (''Sorry, I didn't catch that. Let'' @ [CHR 0xE2, CHR 0x80, CHR 0x99]
                     @ ''s try again.''),
                Gather \<lparr>input = ''speech'', action = ''/gather'', http_method = ''POST'',
                        timeout = 5, speech_timeout = ''auto''\<rparr> [Say ''Could you repeat that?'']],
               c')"
    using b by (rule forUI_gather_blank)
  show "server_serve (replicate n (GatherReq p frm)) c = c"
    using b by (rule server_serve_blank)
  show "forUI_serve (replicate n (GatherReq p frm)) c' = c'"
    using b by (rule forUI_serve_blank)
next
  assume s: "strip (case frm ''SpeechResult'' of None \<Rightarrow> [] | Some v \<Rightarrow> v) \<noteq> []"
  show "listens (fst (server_gather p frm c))"
    using s by (rule server_gather_listens)
  assume "c' (frm ''CallSid'') \<noteq> None"
  with s show "\<exists>vr c''. forUI_gather p frm c' = Inr (vr, c'') \<and> listens vr"
    by (rule forUI_gather_listens)
qed

lemma blank_speech_reprompts_example:
  "strip '' '' = []
   \<and> forUI_serve (replicate 3 (GatherReq (\<lambda>h. None)
                     [''CallSid'' \<mapsto> ''CA1'', ''SpeechResult'' \<mapsto> '' '']))
        Map.empty = Map.empty
   \<and> strip ''hello'' \<noteq> []
   \<and> listens (fst (server_gather (\<lambda>h. None) [''CallSid'' \<mapsto> ''CA1'', ''SpeechResult'' \<mapsto> ''hello'']
                     (server_serve [GatherReq (\<lambda>h. None)
                                      [''CallSid'' \<mapsto> ''CA1'', ''SpeechResult'' \<mapsto> '' '']]
                        Map.empty)))"
  using blank_speech_reprompts
          [of "[''CallSid'' \<mapsto> ''CA1'', ''SpeechResult'' \<mapsto> '' '']" "\<lambda>h. None"
              Map.empty Map.empty 3, THEN conjunct1]
        blank_speech_reprompts
          [of "[''CallSid'' \<mapsto> ''CA1'', ''SpeechResult'' \<mapsto> ''hello'']" "\<lambda>h. None"
              "server_serve [GatherReq (\<lambda>h. None)
                               [''CallSid'' \<mapsto> ''CA1'', ''SpeechResult'' \<mapsto> '' '']] Map.empty"
              Map.empty 0, THEN conjunct2]
  by (simp add: strip_blank strip_hello)

section \<open>Failure of the language model\<close>

text \<open>
  In \<^verbatim>\<open>server.py\<close> the reply generator turns a failure into the fixed text, appends
  it as the turn of the assistant, and the handler listens again.
\<close>

lemma server_fallback_appended:
  assumes "frm ''SpeechResult'' = Some t" and "strip t \<noteq> []"
    and "frm ''CallSid'' = Some sid" and "c sid = Some h"
    and "p (h @ [\<lparr>role = ''user'', content = t\<rparr>]) = None"
  shows "server_gather p frm c =
     ([Gather \<lparr>input = ''speech'', action = ''/gather'', http_method = ''POST'', timeout = 8,
               speech_timeout = ''auto''\<rparr>
         [Say ''Sorry, I am having trouble right now. We will contact you again later.''],
       Say (''I did not hear anything. I will end this call now. ''
            @ ''Thank you for your time. Goodbye.'')],
      c(sid \<mapsto> drop (length h + 2 - 10)
                   (h @ [\<lparr>role = ''user'', content = t\<rparr>,
                         \<lparr>role = ''assistant'',
                          content = ''Sorry, I am having trouble right now. We will contact you again later.''\<rparr>])))"
  using assms by (simp add: server_gather_def generate_ai_reply_def Let_def)

lemma server_fallback_appended_example:
  "server_gather (\<lambda>h. None) [''CallSid'' \<mapsto> ''CA2'', ''SpeechResult'' \<mapsto> ''yes I did'']
     (snd (server_voice [''CallSid'' \<mapsto> ''CA2''] Map.empty))
   = ([Gather \<lparr>input = ''speech'', action = ''/gather'', http_method = ''POST'', timeout = 8,
               speech_timeout = ''auto''\<rparr>
         [Say ''Sorry, I am having trouble right now. We will contact you again later.''],
       Say (''I did not hear anything. I will end this call now. ''
            @ ''Thank you for your time. Goodbye.'')],
      [''CA2'' \<mapsto> [\<lparr>role = ''system'', content = SYSTEM_PROMPT\<rparr>,
                       \<lparr>role = ''user'', content = ''yes I did''\<rparr>,
                       \<lparr>role = ''assistant'',
                        content = ''Sorry, I am having trouble right now. We will contact you again later.''\<rparr>]])"
  using server_fallback_appended
    [of "[''CallSid'' \<mapsto> ''CA2'', ''SpeechResult'' \<mapsto> ''yes I did'']" "''yes I did''" "''CA2''"
        "snd (server_voice [''CallSid'' \<mapsto> ''CA2''] Map.empty)"
        "[\<lparr>role = ''system'', content = SYSTEM_PROMPT\<rparr>]" "\<lambda>h. None"]
  by (simp add: strip_yes_I_did server_voice_def)

text \<open>
  C4. In \<^verbatim>\<open>forUI.py\<close> the session CA2 says "yes I did" and the provider raises: the
  fixed text is spoken and the handler listens again, but the history ends with the turn
  of the user. The turn of the assistant is appended only inside the \<^verbatim>\<open>try\<close> block,
  after the provider has answered.
\<close>

theorem forUI_fallback_not_appended:
  "forUI_gather (\<lambda>h. None) [''CallSid'' \<mapsto> ''CA2'', ''SpeechResult'' \<mapsto> ''yes I did'']
     (snd (forUI_voice [''CallSid'' \<mapsto> ''CA2''] Map.empty))
   = Inr ([Gather \<lparr>input = ''speech'', action = ''/gather'', http_method = ''POST'', timeout = 5,
                   speech_timeout = ''auto''\<rparr>
             [Say ''Sorry, I am facing a technical issue right now.''],
           Say ''I did not hear anything. Goodbye.''],
          [Some ''CA2'' \<mapsto>
             [\<lparr>role = ''system'',
               content = ''You are Arjun, a friendly, calm Indian male assistant. ''
                 @ ''Speak naturally and briefly. You are conducting a simple survey.''\<rparr>,
              \<lparr>role = ''user'', content = ''yes I did''\<rparr>]])"
  by (simp add: forUI_voice_def forUI_gather_failed [where t = "''yes I did''"] strip_yes_I_did)

text \<open>
  C6. The next speech of that session is then appended right after the turn of the user
  that had no answer: two turns of the user in a row.
\<close>

theorem forUI_two_user_turns:
  "map_option (map role)
     (forUI_serve
        [VoiceReq [''CallSid'' \<mapsto> ''CA2''],
         GatherReq (\<lambda>h. None) [''CallSid'' \<mapsto> ''CA2'', ''SpeechResult'' \<mapsto> ''yes I did''],
         GatherReq (\<lambda>h. Some ''Great!'') [''CallSid'' \<mapsto> ''CA2'', ''SpeechResult'' \<mapsto> ''hello'']]
        Map.empty (Some ''CA2''))
   = Some [''system'', ''user'', ''user'', ''assistant'']"
  by (simp add: forUI_serve_def forUI_after_def forUI_voice_def
        forUI_gather_failed [where t = "''yes I did''"] forUI_gather_answered [where t = "''hello''"]
        strip_yes_I_did strip_hello)

section \<open>Length and first turn of the histories\<close>















section \<open>\<^verbatim>\<open>forUI.py\<close>: scheduling a call\<close>

lemma dict_get_missing: "map_of d k = None \<Longrightarrow> \<not> truthy (dict_get d k)"
  by (simp add: dict_get_def)

lemma api_schedule_not_object:
  "(\<forall>d. data \<noteq> JObj d) \<Longrightarrow> api_schedule added utcnow data c = Inl AttributeError"
  by (cases data) (simp_all add: api_schedule_def)

text \<open>
  C7. A body whose phone is the empty string holds both fields and is turned down with
  status 400; a body that is a list raises \<^verbatim>\<open>AttributeError\<close>.
\<close>

theorem api_schedule_counterexample:
  "api_schedule (Some ''doc1'') ''2024-01-02T00:00:00''
     (JObj [(''phone'', JStr []), (''scheduledAt'', JStr ''2024-01-01T00:00:00Z'')]) []
   = Inr ((400, JObj [(''error'', JStr ''Missing fields'')]), [])
   \<and> api_schedule (Some ''doc1'') ''2024-01-02T00:00:00''
       (JArr [JStr ''+15551234567'', JStr ''2024-01-01T00:00:00Z'']) []
     = Inl AttributeError"
  by (simp add: api_schedule_def dict_get_def)

text \<open>
  C7, amended. For every request to \<^verbatim>\<open>/api/schedule\<close> whose body is an object: if
  the field phone or the field scheduledAt is missing, or holds a value that is false
  in Python (null, the empty string, zero, false, an empty list or object), the answer is
  status 400 with an error body and no task is created; otherwise, when the store accepts
  the document, one task is added with these two values and the status pending, and the
  answer is the acknowledgment of success.
\<close>

theorem api_schedule_object:
  "((map_of d ''phone'' = None \<or> map_of d ''scheduledAt'' = None
      \<or> \<not> truthy (dict_get d ''phone'') \<or> \<not> truthy (dict_get d ''scheduledAt'')) \<longrightarrow>
      api_schedule added utcnow (JObj d) c
        = Inr ((400, JObj [(''error'', JStr ''Missing fields'')]), c))
   \<and> (truthy (dict_get d ''phone'') \<and> truthy (dict_get d ''scheduledAt'') \<and> added = Some i \<longrightarrow>
        (\<exists>task. api_schedule added utcnow (JObj d) c
                  = Inr ((200, JObj [(''success'', JBool True)]), c @ [(i, task)])
              \<and> dict_get task ''status'' = JStr ''pending''
              \<and> dict_get task ''phoneNumber'' = dict_get d ''phone''
              \<and> dict_get task ''scheduledAt'' = dict_get d ''scheduledAt''))"
proof (intro conjI impI)
  assume "map_of d ''phone'' = None \<or> map_of d ''scheduledAt'' = None
      \<or> \<not> truthy (dict_get d ''phone'') \<or> \<not> truthy (dict_get d ''scheduledAt'')"
  then have "\<not> truthy (dict_get d ''phone'') \<or> \<not> truthy (dict_get d ''scheduledAt'')"
    using dict_get_missing by blast
  then show "api_schedule added utcnow (JObj d) c
        = Inr ((400, JObj [(''error'', JStr ''Missing fields'')]), c)"
    by (auto simp: api_schedule_def Let_def)
next
  assume a: "truthy (dict_get d ''phone'') \<and> truthy (dict_get d ''scheduledAt'') \<and> added = Some i"
  let ?task = "[(''phoneNumber'', dict_get d ''phone''), (''scheduledAt'', dict_get d ''scheduledAt''),
                (''status'', JStr ''pending''), (''createdAt'', JStr utcnow)]"
  have "api_schedule added utcnow (JObj d) c
          = Inr ((200, JObj [(''success'', JBool True)]), c @ [(i, ?task)])"
    using a by (simp add: api_schedule_def Let_def)
  moreover have "dict_get ?task ''status'' = JStr ''pending''"
    and "dict_get ?task ''phoneNumber'' = dict_get d ''phone''"
    and "dict_get ?task ''scheduledAt'' = dict_get d ''scheduledAt''"
    by (simp_all add: dict_get_def)
  ultimately show "\<exists>task. api_schedule added utcnow (JObj d) c
                  = Inr ((200, JObj [(''success'', JBool True)]), c @ [(i, task)])
              \<and> dict_get task ''status'' = JStr ''pending''
              \<and> dict_get task ''phoneNumber'' = dict_get d ''phone''
              \<and> dict_get task ''scheduledAt'' = dict_get d ''scheduledAt''"
    by blast
qed

text \<open>
A body without scheduledAt, and the body of the scenario of the specification.
\<close>

theorem api_schedule_object_witness:
  "api_schedule (Some ''doc1'') ''2024-01-02T00:00:00'' (JObj [(''phone'', JStr ''+15551234567'')]) []
     = Inr ((400, JObj [(''error'', JStr ''Missing fields'')]), [])
   \<and> (\<exists>task. api_schedule (Some ''doc1'') ''2024-01-02T00:00:00''
                 (JObj [(''phone'', JStr ''+15551234567''),
                        (''scheduledAt'', JStr ''2024-01-01T00:00:00Z'')]) []
                = Inr ((200, JObj [(''success'', JBool True)]), [(''doc1'', task)])
            \<and> dict_get task ''status'' = JStr ''pending'')"
proof -
  have m: "map_of [(''phone'', JStr ''+15551234567'')] ''scheduledAt'' = None"
    by simp
  have t: "truthy (dict_get [(''phone'', JStr ''+15551234567''),
                             (''scheduledAt'', JStr ''2024-01-01T00:00:00Z'')] ''phone'')
         \<and> truthy (dict_get [(''phone'', JStr ''+15551234567''),
                             (''scheduledAt'', JStr ''2024-01-01T00:00:00Z'')] ''scheduledAt'')
         \<and> Some ''doc1'' = Some ''doc1''"
    by (simp add: dict_get_def)
  show ?thesis
    using api_schedule_object [of "[(''phone'', JStr ''+15551234567'')]" "Some ''doc1''"
            "''2024-01-02T00:00:00''" "[]" "''doc1''", THEN conjunct1] m
          api_schedule_object [of "[(''phone'', JStr ''+15551234567''),
                        (''scheduledAt'', JStr ''2024-01-01T00:00:00Z'')]" "Some ''doc1''"
            "''2024-01-02T00:00:00''" "[]" "''doc1''", THEN conjunct2] t
    by auto
qed

section \<open>Start of the process: what is checked\<close>





section \<open>Poll cycles\<close>

subsection \<open>Updates of the store and of the record\<close>

lemma dispatched_append: "dispatched (a @ b) = dispatched a @ dispatched b"
  by (induction a rule: dispatched.induct) simp_all

lemma emit_fields [simp]:
  "scheduledCalls (emit es st) = scheduledCalls st" "trace (emit es st) = trace st @ es"
  by (simp_all add: emit_def)

lemma dict_get_set: "dict_get (dict_set d k v) k = v"
proof (cases "map_of d k")
  case None
  then show ?thesis by (simp add: dict_get_def dict_set_def map_add_def)
next
  case (Some w)
  have "map_of (map (\<lambda>(k', v'). if k' = k then (k', v) else (k', v')) d) k = Some v"
    using Some by (induction d) (auto split: if_splits)
  with Some show ?thesis by (simp add: dict_get_def dict_set_def)
qed

lemma map_of_mark:
  "map_of (map (\<lambda>(j, data). if j = i then (j, f data) else (j, data)) c) k
     = (if k = i then map_option f (map_of c k) else map_of c k)"
  by (induction c) auto

lemma mark_processed_ids [simp]:
  "map fst (scheduledCalls (mark_processed i st)) = map fst (scheduledCalls st)"
  by (auto simp: mark_processed_def)

lemma mark_processed_trace [simp]:
  "trace (mark_processed i st) = trace st @ [SetStatus i ''processed'']"
  by (simp add: mark_processed_def)

lemma mark_processed_status:
  "status_of (scheduledCalls (mark_processed i st)) j
     = (if j = i \<and> i \<in> fst ` set (scheduledCalls st) then Some (JStr ''processed'')
        else status_of (scheduledCalls st) j)"
proof -
  have "i \<in> fst ` set c \<longleftrightarrow> map_of c i \<noteq> None" for c :: collection
    by (simp add: map_of_eq_None_iff)
  then show ?thesis
    by (auto simp: status_of_def mark_processed_def map_of_mark dict_get_set option.map_comp comp_def)
qed

lemma server_make_call_fields [simp]:
  "scheduledCalls (server_make_call x ph st) = scheduledCalls st"
  "dispatched (trace (server_make_call x ph st)) = dispatched (trace st)"
  by (simp_all add: server_make_call_def Let_def dispatched_append)

lemma forUI_make_call_fields:
  "forUI_make_call x ph st = Inl st' \<or> forUI_make_call x ph st = Inr st' \<Longrightarrow>
   scheduledCalls st' = scheduledCalls st \<and> dispatched (trace st') = dispatched (trace st)"
  by (auto simp: forUI_make_call_def Let_def dispatched_append split: if_splits)

subsection \<open>The loops when every update succeeds\<close>

lemma server_selects_Cons: "server_selects (d # docs) = server_selects [d] @ server_selects docs"
  by (simp add: server_selects_def)

lemma server_each_updates:
  assumes "\<forall>i. update_ok x i"
  shows "\<exists>st' pa'. server_each x d (st, pa) = Inr (st', pa')
     \<and> map fst (scheduledCalls st') = map fst (scheduledCalls st)
     \<and> dispatched (trace st') = dispatched (trace st) @ server_selects [d]
     \<and> (\<forall>j. status_of (scheduledCalls st') j
            = (if j \<in> set (server_selects [d]) \<and> j \<in> fst ` set (scheduledCalls st)
               then Some (JStr ''processed'') else status_of (scheduledCalls st) j))"
proof -
  obtain i data where d: "d = (i, data)" by (cases d)
  show ?thesis
  proof (cases "truthy (dict_get data ''phoneNumber'')")
    case False
    with d show ?thesis
      by (simp add: server_each_def Let_def server_selects_def dispatched_append)
  next
    case True
    with d assms show ?thesis
      by (auto simp: server_each_def Let_def server_selects_def dispatched_append
            mark_processed_status)
  qed
qed

lemma server_loop_updates:
  assumes "\<forall>i. update_ok x i"
  shows "\<exists>st' pa'. server_loop x docs (st, pa) = Inr (st', pa')
     \<and> map fst (scheduledCalls st') = map fst (scheduledCalls st)
     \<and> dispatched (trace st') = dispatched (trace st) @ server_selects docs
     \<and> (\<forall>j. status_of (scheduledCalls st') j
            = (if j \<in> set (server_selects docs) \<and> j \<in> fst ` set (scheduledCalls st)
               then Some (JStr ''processed'') else status_of (scheduledCalls st) j))"
proof (induction docs arbitrary: st pa)
  case Nil
  then show ?case by (simp add: server_selects_def)
next
  case (Cons d docs)
  from server_each_updates [OF assms, of d st pa] obtain st1 pa1 where
    e: "server_each x d (st, pa) = Inr (st1, pa1)"
    and ids1: "map fst (scheduledCalls st1) = map fst (scheduledCalls st)"
    and dis1: "dispatched (trace st1) = dispatched (trace st) @ server_selects [d]"
    and sta1: "\<And>j. status_of (scheduledCalls st1) j
            = (if j \<in> set (server_selects [d]) \<and> j \<in> fst ` set (scheduledCalls st)
               then Some (JStr ''processed'') else status_of (scheduledCalls st) j)"
    by blast
  from Cons.IH [of st1 pa1] obtain st' pa' where
    r: "server_loop x docs (st1, pa1) = Inr (st', pa')"
    and ids: "map fst (scheduledCalls st') = map fst (scheduledCalls st1)"
    and dis: "dispatched (trace st') = dispatched (trace st1) @ server_selects docs"
    and sta: "\<And>j. status_of (scheduledCalls st') j
            = (if j \<in> set (server_selects docs) \<and> j \<in> fst ` set (scheduledCalls st1)
               then Some (JStr ''processed'') else status_of (scheduledCalls st1) j)"
    by blast
  have f: "fst ` set (scheduledCalls st1) = fst ` set (scheduledCalls st)"
    using ids1 by (metis list.set_map)
  have "server_loop x (d # docs) (st, pa) = Inr (st', pa')"
    using e r by simp
  moreover have "map fst (scheduledCalls st') = map fst (scheduledCalls st)"
    using ids ids1 by simp
  moreover have "dispatched (trace st') = dispatched (trace st) @ server_selects (d # docs)"
    using dis dis1 server_selects_Cons [of d docs] by simp
  moreover have "status_of (scheduledCalls st') j
            = (if j \<in> set (server_selects (d # docs)) \<and> j \<in> fst ` set (scheduledCalls st)
               then Some (JStr ''processed'') else status_of (scheduledCalls st) j)" for j
    unfolding sta [of j] sta1 [of j] f server_selects_Cons [of d docs]
    by auto
  ultimately show ?case by blast
qed

lemma forUI_selects_Cons:
  "forUI_selects ((i, data) # docs)
     = (if map_of data ''phoneNumber'' = None then [] else i # forUI_selects docs)"
  by (simp add: forUI_selects_def)

lemma forUI_each_updates:
  assumes "\<forall>i. update_ok x i" and "\<forall>ph. call x ph \<noteq> Unreachable"
    and "map_of data ''phoneNumber'' \<noteq> None"
  shows "\<exists>st'. forUI_each x (i, data) st = Inr st'
     \<and> map fst (scheduledCalls st') = map fst (scheduledCalls st)
     \<and> dispatched (trace st') = dispatched (trace st) @ [i]
     \<and> (\<forall>j. status_of (scheduledCalls st') j
            = (if j = i \<and> j \<in> fst ` set (scheduledCalls st)
               then Some (JStr ''processed'') else status_of (scheduledCalls st) j))"
  using assms
  by (auto simp: forUI_each_def forUI_make_call_def Let_def dispatched_append mark_processed_status)

lemma forUI_loop_updates:
  assumes "\<forall>i. update_ok x i" and "\<forall>ph. call x ph \<noteq> Unreachable"
  shows "\<exists>st'. (forUI_loop x docs st = Inl st' \<or> forUI_loop x docs st = Inr st')
     \<and> map fst (scheduledCalls st') = map fst (scheduledCalls st)
     \<and> dispatched (trace st') = dispatched (trace st) @ forUI_selects docs
     \<and> (\<forall>j. status_of (scheduledCalls st') j
            = (if j \<in> set (forUI_selects docs) \<and> j \<in> fst ` set (scheduledCalls st)
               then Some (JStr ''processed'') else status_of (scheduledCalls st) j))"
proof (induction docs arbitrary: st)
  case Nil
  then show ?case by (simp add: forUI_selects_def)
next
  case (Cons d docs)
  obtain i data where d: "d = (i, data)" by (cases d)
  show ?case
  proof (cases "map_of data ''phoneNumber'' = None")
    case True
    then have "forUI_loop x (d # docs) st = Inl st"
      using d by (simp add: forUI_each_def)
    with True d show ?thesis
      by (simp add: forUI_selects_Cons)
  next
    case False
    from forUI_each_updates [OF assms False, of i st] obtain st1 where
      e: "forUI_each x (i, data) st = Inr st1"
      and ids1: "map fst (scheduledCalls st1) = map fst (scheduledCalls st)"
      and dis1: "dispatched (trace st1) = dispatched (trace st) @ [i]"
      and sta1: "\<And>j. status_of (scheduledCalls st1) j
            = (if j = i \<and> j \<in> fst ` set (scheduledCalls st)
               then Some (JStr ''processed'') else status_of (scheduledCalls st) j)"
      by blast
    from Cons.IH [of st1] obtain st' where
      r: "forUI_loop x docs st1 = Inl st' \<or> forUI_loop x docs st1 = Inr st'"
      and ids: "map fst (scheduledCalls st') = map fst (scheduledCalls st1)"
      and dis: "dispatched (trace st') = dispatched (trace st1) @ forUI_selects docs"
      and sta: "\<And>j. status_of (scheduledCalls st') j
            = (if j \<in> set (forUI_selects docs) \<and> j \<in> fst ` set (scheduledCalls st1)
               then Some (JStr ''processed'') else status_of (scheduledCalls st1) j)"
      by blast
    have f: "fst ` set (scheduledCalls st1) = fst ` set (scheduledCalls st)"
      using ids1 by (metis list.set_map)
    have sel: "forUI_selects (d # docs) = i # forUI_selects docs"
      using False d by (simp add: forUI_selects_Cons)
    have "forUI_loop x (d # docs) st = Inl st' \<or> forUI_loop x (d # docs) st = Inr st'"
      using e r d by simp
    moreover have "map fst (scheduledCalls st') = map fst (scheduledCalls st)"
      using ids ids1 by simp
    moreover have "dispatched (trace st') = dispatched (trace st) @ forUI_selects (d # docs)"
      using dis dis1 sel by simp
    moreover have "status_of (scheduledCalls st') j
            = (if j \<in> set (forUI_selects (d # docs)) \<and> j \<in> fst ` set (scheduledCalls st)
               then Some (JStr ''processed'') else status_of (scheduledCalls st) j)" for j
      unfolding sta [of j] sta1 [of j] f sel
      by auto
    ultimately show ?thesis by blast
  qed
qed

subsection \<open>What a query selects\<close>

lemma query_due_pending:
  assumes "distinct (map fst c)" and "i \<in> fst ` set (query_due now_iso c)"
  shows "status_of c i = Some (JStr ''pending'')"
proof -
  from assms(2) obtain data where m: "(i, data) \<in> set c" and d: "due now_iso data"
    by (auto simp: query_due_def)
  from assms(1) m have "map_of c i = Some data" by simp
  with d show ?thesis by (simp add: status_of_def due_def)
qed

lemma query_due_distinct: "distinct (map fst c) \<Longrightarrow> distinct (map fst (query_due now_iso c))"
  by (simp add: query_due_def distinct_map_filter)

lemma server_selects_subset: "set (server_selects docs) \<subseteq> fst ` set docs"
  by (auto simp: server_selects_def)

lemma server_selects_distinct: "distinct (map fst docs) \<Longrightarrow> distinct (server_selects docs)"
  by (simp add: server_selects_def distinct_map_filter)

lemma forUI_selects_subset: "set (forUI_selects docs) \<subseteq> fst ` set docs"
  by (auto simp: forUI_selects_def dest: set_takeWhileD)

lemma forUI_selects_distinct: "distinct (map fst docs) \<Longrightarrow> distinct (forUI_selects docs)"
proof (induction docs)
  case Nil
  then show ?case by (simp add: forUI_selects_def)
next
  case (Cons d docs)
  obtain i data where d: "d = (i, data)" by (cases d)
  from Cons.prems d have "i \<notin> fst ` set docs" and "distinct (map fst docs)" by auto
  with Cons.IH forUI_selects_subset [of docs] d show ?case
    by (auto simp: forUI_selects_Cons)
qed

subsection \<open>The invariant\<close>

lemma dispatch_inv_step:
  assumes inv: "dispatch_inv st"
    and ids: "map fst (scheduledCalls st') = map fst (scheduledCalls st)"
    and dis: "dispatched (trace st') = dispatched (trace st) @ D"
    and dD: "distinct D"
    and pen: "\<forall>j \<in> set D. status_of (scheduledCalls st) j = Some (JStr ''pending'')"
    and sta: "\<forall>j. status_of (scheduledCalls st') j
            = (if j \<in> set D \<and> j \<in> fst ` set (scheduledCalls st)
               then Some (JStr ''processed'') else status_of (scheduledCalls st) j)"
  shows "dispatch_inv st'"
proof -
  have in_ids: "j \<in> fst ` set (scheduledCalls st)" if "j \<in> set D" for j
  proof -
    from pen that have "map_of (scheduledCalls st) j \<noteq> None"
      by (auto simp: status_of_def)
    then show ?thesis by (simp add: map_of_eq_None_iff)
  qed
  have disj: "set (dispatched (trace st)) \<inter> set D = {}"
    using inv pen by (auto simp: dispatch_inv_def)
  have "distinct (map fst (scheduledCalls st'))"
    using inv ids by (simp add: dispatch_inv_def)
  moreover have "distinct (dispatched (trace st'))"
    using inv dD disj by (simp add: dis dispatch_inv_def)
  moreover have "status_of (scheduledCalls st') i = Some (JStr ''processed'')"
    if "i \<in> set (dispatched (trace st'))" for i
  proof (cases "i \<in> set D")
    case True
    with in_ids sta show ?thesis by simp
  next
    case False
    with that dis have "i \<in> set (dispatched (trace st))" by simp
    with inv False sta show ?thesis by (simp add: dispatch_inv_def)
  qed
  ultimately show ?thesis by (simp add: dispatch_inv_def)
qed

lemma check_scheduled_calls_inv:
  assumes "\<forall>i. update_ok x i" and "dispatch_inv st"
  shows "dispatch_inv (check_scheduled_calls x now_iso st)"
proof (cases "query_ok x")
  case False
  then have "check_scheduled_calls x now_iso st
               = emit [Print CronChecking, Print (CurrentTime now_iso), Print CronError] st"
    by (simp add: check_scheduled_calls_def Let_def emit_def)
  with assms(2) show ?thesis
    by (simp add: dispatch_inv_def dispatched_append)
next
  case True
  let ?st1 = "emit [Print CronChecking, Print (CurrentTime now_iso)] st"
  let ?docs = "query_due now_iso (scheduledCalls st)"
  from server_loop_updates [OF assms(1), of ?docs ?st1 False] obtain st2 pa where
    r: "server_loop x ?docs (?st1, False) = Inr (st2, pa)"
    and ids: "map fst (scheduledCalls st2) = map fst (scheduledCalls st)"
    and dis: "dispatched (trace st2) = dispatched (trace st) @ server_selects ?docs"
    and sta: "\<forall>j. status_of (scheduledCalls st2) j
            = (if j \<in> set (server_selects ?docs) \<and> j \<in> fst ` set (scheduledCalls st)
               then Some (JStr ''processed'') else status_of (scheduledCalls st) j)"
    by (auto simp: dispatched_append)
  have d: "distinct (map fst (scheduledCalls st))"
    using assms(2) by (simp add: dispatch_inv_def)
  have "dispatch_inv st2"
  proof (rule dispatch_inv_step [OF assms(2) ids dis _ _ sta])
    show "distinct (server_selects ?docs)"
      using d by (simp add: server_selects_distinct query_due_distinct)
    show "\<forall>j \<in> set (server_selects ?docs). status_of (scheduledCalls st) j = Some (JStr ''pending'')"
      using query_due_pending [OF d] server_selects_subset [of ?docs] by blast
  qed
  moreover have "check_scheduled_calls x now_iso st
                   = emit [Print (if pa then MarkedProcessed else NoPendingCalls)] st2"
    using True r by (simp add: check_scheduled_calls_def Let_def)
  ultimately show ?thesis
    by (simp add: dispatch_inv_def dispatched_append)
qed

lemma cron_cycle_inv:
  assumes "\<forall>i. update_ok x i" and "\<forall>ph. call x ph \<noteq> Unreachable" and "dispatch_inv st"
  shows "dispatch_inv (cron_cycle x now_iso st)"
proof -
  let ?st1 = "emit [Print CronChecking, Print (CurrentTime now_iso)] st"
  let ?docs = "query_due now_iso (scheduledCalls st)"
  have e: "dispatch_inv (emit es s)" if "dispatch_inv s" "dispatched es = []" for es s
    using that by (simp add: dispatch_inv_def dispatched_append)
  have i1: "dispatch_inv ?st1"
    using assms(3) by (rule e) simp
  from forUI_loop_updates [OF assms(1,2), of ?docs ?st1] obtain st2 where
    r: "forUI_loop x ?docs ?st1 = Inl st2 \<or> forUI_loop x ?docs ?st1 = Inr st2"
    and ids: "map fst (scheduledCalls st2) = map fst (scheduledCalls st)"
    and dis: "dispatched (trace st2) = dispatched (trace st) @ forUI_selects ?docs"
    and sta: "\<forall>j. status_of (scheduledCalls st2) j
            = (if j \<in> set (forUI_selects ?docs) \<and> j \<in> fst ` set (scheduledCalls st)
               then Some (JStr ''processed'') else status_of (scheduledCalls st) j)"
    by (auto simp: dispatched_append)
  have d: "distinct (map fst (scheduledCalls st))"
    using assms(3) by (simp add: dispatch_inv_def)
  have i2: "dispatch_inv st2"
  proof (rule dispatch_inv_step [OF assms(3) ids dis _ _ sta])
    show "distinct (forUI_selects ?docs)"
      using d by (simp add: forUI_selects_distinct query_due_distinct)
    show "\<forall>j \<in> set (forUI_selects ?docs). status_of (scheduledCalls st) j = Some (JStr ''pending'')"
      using query_due_pending [OF d] forUI_selects_subset [of ?docs] by blast
  qed
  have "cron_cycle x now_iso st = emit [Print CronError] ?st1
      \<or> cron_cycle x now_iso st = emit [Print NoPendingCalls] ?st1
      \<or> cron_cycle x now_iso st = emit [Print CronError] st2
      \<or> cron_cycle x now_iso st = st2"
    using r by (auto simp: cron_cycle_def Let_def)
  with i1 i2 e show ?thesis
    by (metis dispatched.simps(1) dispatched.simps(3))
qed

lemma server_scheduler_inv:
  "\<forall>(x, now_iso) \<in> set cycles. \<forall>i. update_ok x i \<Longrightarrow> dispatch_inv st \<Longrightarrow>
   dispatch_inv (server_scheduler cycles st)"
proof (induction cycles arbitrary: st)
  case Nil
  then show ?case by (simp add: server_scheduler_def)
next
  case (Cons c cycles)
  obtain x now_iso where c: "c = (x, now_iso)" by (cases c)
  have "dispatch_inv (check_scheduled_calls x now_iso st)"
    using Cons.prems c by (intro check_scheduled_calls_inv) auto
  from Cons.IH [OF _ this] Cons.prems(1) c show ?case
    by (simp add: server_scheduler_def)
qed

lemma cron_job_inv:
  "\<forall>(x, now_iso) \<in> set cycles. (\<forall>i. update_ok x i) \<and> (\<forall>ph. call x ph \<noteq> Unreachable) \<Longrightarrow>
   dispatch_inv st \<Longrightarrow> dispatch_inv (cron_job cycles st)"
proof (induction cycles arbitrary: st)
  case Nil
  then show ?case by (simp add: cron_job_def)
next
  case (Cons c cycles)
  obtain x now_iso where c: "c = (x, now_iso)" by (cases c)
  have "dispatch_inv (cron_cycle x now_iso st)"
    using Cons.prems c by (intro cron_cycle_inv) auto
  from Cons.IH [OF _ this] Cons.prems(1) c show ?case
    by (simp add: cron_job_def)
qed

subsection \<open>What a cycle dispatches, whatever fails\<close>

lemma server_each_dispatches:
  assumes "server_each x d (st, pa) = Inl st' \<or> server_each x d (st, pa) = Inr (st', pa')"
  shows "\<exists>D. dispatched (trace st') = dispatched (trace st) @ D \<and> set D \<subseteq> {fst d}"
  using assms
  by (cases d)
     (auto simp: server_each_def Let_def dispatched_append split: if_splits)

lemma server_loop_dispatches:
  assumes "server_loop x docs (st, pa) = Inl st' \<or> server_loop x docs (st, pa) = Inr (st', pa')"
  shows "\<exists>D. dispatched (trace st') = dispatched (trace st) @ D \<and> set D \<subseteq> fst ` set docs"
  using assms
proof (induction docs arbitrary: st pa)
  case Nil
  then show ?case by simp
next
  case (Cons d docs)
  show ?case
  proof (cases "server_each x d (st, pa)")
    case (Inl s)
    with Cons.prems have "s = st'" by simp
    with Inl server_each_dispatches [of x d st pa st' pa'] show ?thesis by auto
  next
    case (Inr r)
    obtain st1 pa1 where r: "r = (st1, pa1)" by (cases r)
    from Inr r server_each_dispatches [of x d st pa st1 pa1]
    obtain D1 where D1: "dispatched (trace st1) = dispatched (trace st) @ D1" "set D1 \<subseteq> {fst d}"
      by auto
    from Inr r Cons.prems
    have "server_loop x docs (st1, pa1) = Inl st' \<or> server_loop x docs (st1, pa1) = Inr (st', pa')"
      by simp
    from Cons.IH [OF this]
    obtain D2 where D2: "dispatched (trace st') = dispatched (trace st1) @ D2" "set D2 \<subseteq> fst ` set docs"
      by auto
    from D1 D2 have "dispatched (trace st') = dispatched (trace st) @ (D1 @ D2)"
      and "set (D1 @ D2) \<subseteq> fst ` set (d # docs)"
      by auto
    then show ?thesis by blast
  qed
qed

lemma check_scheduled_calls_dispatches:
  "\<exists>D. dispatched (trace (check_scheduled_calls x now_iso st)) = dispatched (trace st) @ D
       \<and> set D \<subseteq> fst ` set (query_due now_iso (scheduledCalls st))"
proof (cases "query_ok x")
  case False
  then show ?thesis
    by (simp add: check_scheduled_calls_def Let_def dispatched_append)
next
  case True
  let ?st1 = "emit [Print CronChecking, Print (CurrentTime now_iso)] st"
  let ?docs = "query_due now_iso (scheduledCalls st)"
  show ?thesis
  proof (cases "server_loop x ?docs (?st1, False)")
    case (Inl st2)
    from server_loop_dispatches [of x ?docs ?st1 False st2 False] Inl
    obtain D where "dispatched (trace st2) = dispatched (trace ?st1) @ D" "set D \<subseteq> fst ` set ?docs"
      by auto
    with True Inl show ?thesis
      by (simp add: check_scheduled_calls_def Let_def dispatched_append)
  next
    case (Inr r)
    obtain st2 pa where r: "r = (st2, pa)" by (cases r)
    from server_loop_dispatches [of x ?docs ?st1 False st2 pa] Inr r
    obtain D where "dispatched (trace st2) = dispatched (trace ?st1) @ D" "set D \<subseteq> fst ` set ?docs"
      by auto
    with True Inr r show ?thesis
      by (simp add: check_scheduled_calls_def Let_def dispatched_append)
  qed
qed

lemma forUI_each_dispatches:
  assumes "forUI_each x d st = Inl st' \<or> forUI_each x d st = Inr st'"
  shows "\<exists>D. dispatched (trace st') = dispatched (trace st) @ D \<and> set D \<subseteq> {fst d}"
  using assms
  by (cases d)
     (auto simp: forUI_each_def forUI_make_call_def Let_def dispatched_append
           split: if_splits option.splits sum.splits)

lemma forUI_loop_dispatches:
  assumes "forUI_loop x docs st = Inl st' \<or> forUI_loop x docs st = Inr st'"
  shows "\<exists>D. dispatched (trace st') = dispatched (trace st) @ D \<and> set D \<subseteq> fst ` set docs"
  using assms
proof (induction docs arbitrary: st)
  case Nil
  then show ?case by simp
next
  case (Cons d docs)
  show ?case
  proof (cases "forUI_each x d st")
    case (Inl s)
    with Cons.prems have "s = st'" by simp
    with Inl forUI_each_dispatches [of x d st st'] show ?thesis by auto
  next
    case (Inr st1)
    from Inr forUI_each_dispatches [of x d st st1]
    obtain D1 where D1: "dispatched (trace st1) = dispatched (trace st) @ D1" "set D1 \<subseteq> {fst d}"
      by auto
    from Inr Cons.prems
    have "forUI_loop x docs st1 = Inl st' \<or> forUI_loop x docs st1 = Inr st'"
      by simp
    from Cons.IH [OF this]
    obtain D2 where D2: "dispatched (trace st') = dispatched (trace st1) @ D2" "set D2 \<subseteq> fst ` set docs"
      by auto
    from D1 D2 have "dispatched (trace st') = dispatched (trace st) @ (D1 @ D2)"
      and "set (D1 @ D2) \<subseteq> fst ` set (d # docs)"
      by auto
    then show ?thesis by blast
  qed
qed

lemma cron_cycle_dispatches:
  "\<exists>D. dispatched (trace (cron_cycle x now_iso st)) = dispatched (trace st) @ D
       \<and> set D \<subseteq> fst ` set (query_due now_iso (scheduledCalls st))"
proof -
  let ?st1 = "emit [Print CronChecking, Print (CurrentTime now_iso)] st"
  let ?docs = "query_due now_iso (scheduledCalls st)"
  show ?thesis
  proof (cases "query_ok x \<and> ?docs \<noteq> []")
    case False
    then show ?thesis
      by (auto simp: cron_cycle_def Let_def dispatched_append)
  next
    case True
    obtain st2 where s: "forUI_loop x ?docs ?st1 = Inl st2 \<or> forUI_loop x ?docs ?st1 = Inr st2"
      by (cases "forUI_loop x ?docs ?st1") auto
    from forUI_loop_dispatches [OF this]
    obtain D where "dispatched (trace st2) = dispatched (trace ?st1) @ D" "set D \<subseteq> fst ` set ?docs"
      by auto
    with True s show ?thesis
      by (auto simp: cron_cycle_def Let_def dispatched_append)
  qed
qed

subsection \<open>The order of calls and updates\<close>

lemma replay_append: "replay (a @ b) c = replay b (replay a c)"
  by (induction a c rule: replay.induct) simp_all

lemma in_order_append_fresh:
  "in_order cur a \<Longrightarrow> fresh b \<Longrightarrow> in_order cur (a @ b)"
  by (induction cur a rule: in_order.induct) (auto simp: fresh_def split: option.splits bool.splits)

lemma fresh_append: "fresh a \<Longrightarrow> fresh b \<Longrightarrow> fresh (a @ b)"
  using in_order_append_fresh by (auto simp: fresh_def)

lemma fresh_Nil [simp]: "fresh []"
  by (simp add: fresh_def)

lemma fresh_Print [simp]: "fresh (Print l # es) = fresh es"
  by (simp add: fresh_def)

lemma server_each_record:
  assumes "server_each x d (st, pa) = Inl st' \<or> server_each x d (st, pa) = Inr (st', pa')"
  shows "\<exists>es. trace st' = trace st @ es \<and> fresh es
            \<and> scheduledCalls st' = replay es (scheduledCalls st)"
proof -
  obtain i data where d: "d = (i, data)" by (cases d)
  let ?ph = "dict_get data ''phoneNumber''"
  let ?l = "if call x ?ph = Placed then CallInitiated else ErrorMakingCall"
  have c: "fresh [Print (DueCallFound ?ph), Dispatch i, Print (StartingCall ?ph), PlaceCall ?ph, Print ?l]"
    "fresh [Print (DueCallFound ?ph), Dispatch i, Print (StartingCall ?ph), PlaceCall ?ph, Print ?l,
            SetStatus i ''processed'']"
    by (simp_all add: fresh_def)
  show ?thesis
  proof (cases "truthy ?ph")
    case False
    with assms d have "st' = emit [Print (DueCallFound ?ph)] st"
      by (auto simp: server_each_def Let_def)
    then show ?thesis by simp
  next
    case True
    let ?es = "[Print (DueCallFound ?ph), Dispatch i, Print (StartingCall ?ph), PlaceCall ?ph, Print ?l]"
    have m: "server_make_call x ?ph (emit [Dispatch i] (emit [Print (DueCallFound ?ph)] st))
               = emit ?es st"
      by (simp add: server_make_call_def Let_def emit_def)
    show ?thesis
    proof (cases "update_ok x i")
      case False
      with True assms d m have "st' = emit ?es st"
        by (auto simp: server_each_def Let_def)
      with c(1) show ?thesis
        by (intro exI [of _ ?es]) simp
    next
      case u: True
      with True assms d m have "st' = mark_processed i (emit ?es st)"
        by (auto simp: server_each_def Let_def)
      with c(2) show ?thesis
        by (intro exI [of _ "?es @ [SetStatus i ''processed'']"])
           (simp add: mark_processed_def)
    qed
  qed
qed

lemma server_loop_record:
  assumes "server_loop x docs (st, pa) = Inl st' \<or> server_loop x docs (st, pa) = Inr (st', pa')"
  shows "\<exists>es. trace st' = trace st @ es \<and> fresh es
            \<and> scheduledCalls st' = replay es (scheduledCalls st)"
  using assms
proof (induction docs arbitrary: st pa)
  case Nil
  then show ?case by auto
next
  case (Cons d docs)
  show ?case
  proof (cases "server_each x d (st, pa)")
    case (Inl s)
    with Cons.prems have "s = st'" by simp
    with Inl server_each_record [of x d st pa st' pa'] show ?thesis by auto
  next
    case (Inr r)
    obtain st1 pa1 where r: "r = (st1, pa1)" by (cases r)
    from Inr r server_each_record [of x d st pa st1 pa1]
    obtain e1 where e1: "trace st1 = trace st @ e1" "fresh e1"
      "scheduledCalls st1 = replay e1 (scheduledCalls st)"
      by auto
    from Inr r Cons.prems
    have "server_loop x docs (st1, pa1) = Inl st' \<or> server_loop x docs (st1, pa1) = Inr (st', pa')"
      by simp
    from Cons.IH [OF this]
    obtain e2 where e2: "trace st' = trace st1 @ e2" "fresh e2"
      "scheduledCalls st' = replay e2 (scheduledCalls st1)"
      by auto
    from e1 e2 have "trace st' = trace st @ (e1 @ e2)" "fresh (e1 @ e2)"
      "scheduledCalls st' = replay (e1 @ e2) (scheduledCalls st)"
      by (simp_all add: fresh_append replay_append)
    then show ?thesis by blast
  qed
qed

lemma check_scheduled_calls_record:
  "\<exists>es. trace (check_scheduled_calls x now_iso st) = trace st @ es \<and> in_order None es
       \<and> scheduledCalls (check_scheduled_calls x now_iso st) = replay es (scheduledCalls st)"
proof -
  let ?st1 = "emit [Print CronChecking, Print (CurrentTime now_iso)] st"
  let ?docs = "query_due now_iso (scheduledCalls st)"
  have "\<exists>es. trace (check_scheduled_calls x now_iso st) = trace st @ es \<and> fresh es
       \<and> scheduledCalls (check_scheduled_calls x now_iso st) = replay es (scheduledCalls st)"
  proof (cases "query_ok x")
    case False
    then have "check_scheduled_calls x now_iso st
                 = emit [Print CronChecking, Print (CurrentTime now_iso), Print CronError] st"
      by (simp add: check_scheduled_calls_def Let_def emit_def)
    then show ?thesis
      by (intro exI [of _ "[Print CronChecking, Print (CurrentTime now_iso), Print CronError]"]) simp
  next
    case True
    obtain st2 pa l where s: "server_loop x ?docs (?st1, False) = Inl st2
                               \<or> server_loop x ?docs (?st1, False) = Inr (st2, pa)"
      and c: "check_scheduled_calls x now_iso st = emit [Print l] st2"
    proof (cases "server_loop x ?docs (?st1, False)")
      case (Inl s2)
      with True have "check_scheduled_calls x now_iso st = emit [Print CronError] s2"
        by (simp add: check_scheduled_calls_def Let_def)
      with Inl that show ?thesis by blast
    next
      case (Inr r)
      obtain s2 pa2 where "r = (s2, pa2)" by (cases r)
      with Inr True have "check_scheduled_calls x now_iso st
          = emit [Print (if pa2 then MarkedProcessed else NoPendingCalls)] s2"
        by (simp add: check_scheduled_calls_def Let_def)
      with Inr \<open>r = (s2, pa2)\<close> that show ?thesis by blast
    qed
    from server_loop_record [OF s]
    obtain es where es: "trace st2 = trace ?st1 @ es" "fresh es"
      "scheduledCalls st2 = replay es (scheduledCalls ?st1)" by blast
    let ?all = "[Print CronChecking, Print (CurrentTime now_iso)] @ es @ [Print l]"
    have "fresh ?all"
      using es(2) by (simp add: fresh_append)
    moreover have "trace (check_scheduled_calls x now_iso st) = trace st @ ?all"
      using c es(1) by simp
    moreover have "scheduledCalls (check_scheduled_calls x now_iso st) = replay ?all (scheduledCalls st)"
      using c es(3) by (simp add: replay_append)
    ultimately show ?thesis by blast
  qed
  then show ?thesis by (auto simp: fresh_def)
qed

lemma forUI_each_record:
  assumes "forUI_each x d st = Inl st' \<or> forUI_each x d st = Inr st'"
  shows "\<exists>es. trace st' = trace st @ es \<and> fresh es
            \<and> scheduledCalls st' = replay es (scheduledCalls st)"
proof -
  obtain i data where d: "d = (i, data)" by (cases d)
  show ?thesis
  proof (cases "map_of data ''phoneNumber''")
    case None
    with assms d have "st' = st" by (auto simp: forUI_each_def)
    then show ?thesis by (intro exI [of _ "[]"]) simp
  next
    case (Some ph)
    let ?a = "[Print (DueCallFound ph), Dispatch i, Print (StartingCall ph), PlaceCall ph]"
    let ?b = "?a @ [Print TwilioResponse]"
    let ?c = "?b @ [SetStatus i ''processed'', Print MarkedProcessed]"
    have f: "fresh ?a" "fresh ?b" "fresh ?c" by (simp_all add: fresh_def)
    from assms d Some
    have "st' = emit ?a st \<or> st' = emit ?b st \<or> st' = emit [Print MarkedProcessed] (mark_processed i (emit ?b st))"
      by (auto simp: forUI_each_def forUI_make_call_def Let_def emit_def split: if_splits)
    then consider "st' = emit ?a st" | "st' = emit ?b st"
      | "st' = emit [Print MarkedProcessed] (mark_processed i (emit ?b st))" by blast
    then show ?thesis
    proof cases
      case 1
      with f(1) show ?thesis by (intro exI [of _ ?a]) simp
    next
      case 2
      with f(2) show ?thesis by (intro exI [of _ ?b]) simp
    next
      case 3
      with f(3) show ?thesis by (intro exI [of _ ?c]) (simp add: mark_processed_def)
    qed
  qed
qed

lemma forUI_loop_record:
  assumes "forUI_loop x docs st = Inl st' \<or> forUI_loop x docs st = Inr st'"
  shows "\<exists>es. trace st' = trace st @ es \<and> fresh es
            \<and> scheduledCalls st' = replay es (scheduledCalls st)"
  using assms
proof (induction docs arbitrary: st)
  case Nil
  then show ?case by auto
next
  case (Cons d docs)
  show ?case
  proof (cases "forUI_each x d st")
    case (Inl s)
    with Cons.prems have "s = st'" by simp
    with Inl forUI_each_record [of x d st st'] show ?thesis by auto
  next
    case (Inr st1)
    from Inr forUI_each_record [of x d st st1]
    obtain e1 where e1: "trace st1 = trace st @ e1" "fresh e1"
      "scheduledCalls st1 = replay e1 (scheduledCalls st)"
      by auto
    from Inr Cons.prems
    have "forUI_loop x docs st1 = Inl st' \<or> forUI_loop x docs st1 = Inr st'"
      by simp
    from Cons.IH [OF this]
    obtain e2 where e2: "trace st' = trace st1 @ e2" "fresh e2"
      "scheduledCalls st' = replay e2 (scheduledCalls st1)"
      by auto
    from e1 e2 have "trace st' = trace st @ (e1 @ e2)" "fresh (e1 @ e2)"
      "scheduledCalls st' = replay (e1 @ e2) (scheduledCalls st)"
      by (simp_all add: fresh_append replay_append)
    then show ?thesis by blast
  qed
qed

lemma cron_cycle_record:
  "\<exists>es. trace (cron_cycle x now_iso st) = trace st @ es \<and> in_order None es
       \<and> scheduledCalls (cron_cycle x now_iso st) = replay es (scheduledCalls st)"
proof -
  let ?p = "[Print CronChecking, Print (CurrentTime now_iso)]"
  let ?st1 = "emit ?p st"
  let ?docs = "query_due now_iso (scheduledCalls st)"
  have "\<exists>es. trace (cron_cycle x now_iso st) = trace st @ es \<and> fresh es
       \<and> scheduledCalls (cron_cycle x now_iso st) = replay es (scheduledCalls st)"
  proof (cases "query_ok x \<and> ?docs \<noteq> []")
    case False
    then have "cron_cycle x now_iso st = emit (?p @ [Print CronError]) st
             \<or> cron_cycle x now_iso st = emit (?p @ [Print NoPendingCalls]) st"
      by (auto simp: cron_cycle_def Let_def emit_def)
    then show ?thesis
    proof
      assume "cron_cycle x now_iso st = emit (?p @ [Print CronError]) st"
      then show ?thesis by (intro exI [of _ "?p @ [Print CronError]"]) simp
    next
      assume "cron_cycle x now_iso st = emit (?p @ [Print NoPendingCalls]) st"
      then show ?thesis by (intro exI [of _ "?p @ [Print NoPendingCalls]"]) simp
    qed
  next
    case True
    obtain st2 where s: "forUI_loop x ?docs ?st1 = Inl st2 \<or> forUI_loop x ?docs ?st1 = Inr st2"
      by (cases "forUI_loop x ?docs ?st1") auto
    from forUI_loop_record [OF s]
    obtain es where es: "trace st2 = trace ?st1 @ es" "fresh es"
      "scheduledCalls st2 = replay es (scheduledCalls ?st1)" by blast
    from True s have "cron_cycle x now_iso st = emit [Print CronError] st2
                    \<or> cron_cycle x now_iso st = st2"
      by (auto simp: cron_cycle_def Let_def)
    then show ?thesis
    proof
      assume c: "cron_cycle x now_iso st = emit [Print CronError] st2"
      let ?all = "?p @ es @ [Print CronError]"
      have "fresh ?all" using es(2) by (simp add: fresh_append)
      moreover have "trace (cron_cycle x now_iso st) = trace st @ ?all"
        using c es(1) by simp
      moreover have "scheduledCalls (cron_cycle x now_iso st) = replay ?all (scheduledCalls st)"
        using c es(3) by (simp add: replay_append)
      ultimately show ?thesis by blast
    next
      assume c: "cron_cycle x now_iso st = st2"
      let ?all = "?p @ es"
      have "fresh ?all" using es(2) by simp
      moreover have "trace (cron_cycle x now_iso st) = trace st @ ?all"
        using c es(1) by simp
      moreover have "scheduledCalls (cron_cycle x now_iso st) = replay ?all (scheduledCalls st)"
        using c es(3) by (simp add: replay_append)
      ultimately show ?thesis by blast
    qed
  qed
  then show ?thesis by (auto simp: fresh_def)
qed

lemma cycle_dispatch_pending:
  assumes "distinct (map fst c)" and "dispatched (tr @ es) = dispatched tr @ D"
    and "set D \<subseteq> fst ` set (query_due now_iso c)"
  shows "set (dispatched es) \<subseteq> fst ` set (query_due now_iso c)
       \<and> (\<forall>i \<in> set (dispatched es). status_of c i = Some (JStr ''pending''))"
proof -
  from assms(2) have "dispatched es = D" by (simp add: dispatched_append)
  with assms(3) query_due_pending [OF assms(1)] show ?thesis by blast
qed

subsection \<open>A request to the provider that raises\<close>

lemma forUI_each_status_other:
  assumes "forUI_each x (j, dj) st = Inr st1" and "k \<noteq> j"
  shows "status_of (scheduledCalls st1) k = status_of (scheduledCalls st) k"
  using assms
  by (auto simp: forUI_each_def forUI_make_call_def Let_def mark_processed_status
           split: option.splits if_splits)

lemma forUI_loop_unreachable:
  assumes "distinct (map fst docs)" and "(i, data) \<in> set docs"
    and "map_of data ''phoneNumber'' = Some ph" and "call x ph = Unreachable"
    and "forUI_loop x docs st = Inl st' \<or> forUI_loop x docs st = Inr st'"
    and "dispatched (trace st') = dispatched (trace st) @ D" and "i \<in> set D"
  shows "forUI_loop x docs st = Inl st'
       \<and> status_of (scheduledCalls st') i = status_of (scheduledCalls st) i \<and> last D = i"
  using assms
proof (induction docs arbitrary: st D)
  case Nil
  then show ?case by simp
next
  case (Cons d docs)
  obtain j dj where d: "d = (j, dj)" by (cases d)
  show ?case
  proof (cases "j = i")
    case True
    with Cons.prems(1,2) d have "dj = data"
      by (auto simp: image_iff)
    with True d Cons.prems(3,4)
    have e: "forUI_each x d st
               = Inl (emit [Print (DueCallFound ph), Dispatch i, Print (StartingCall ph), PlaceCall ph] st)"
      by (simp add: forUI_each_def forUI_make_call_def Let_def emit_def)
    with Cons.prems(5)
    have s: "st' = emit [Print (DueCallFound ph), Dispatch i, Print (StartingCall ph), PlaceCall ph] st"
      by simp
    with Cons.prems(6) have "D = [i]" by (simp add: dispatched_append)
    with e s show ?thesis by simp
  next
    case False
    with Cons.prems(2) d have m: "(i, data) \<in> set docs" by auto
    from Cons.prems(1) have dd: "distinct (map fst docs)" by simp
    show ?thesis
    proof (cases "forUI_each x d st")
      case (Inl s)
      with Cons.prems(5) have "s = st'" by simp
      with Inl forUI_each_dispatches [of x d st st'] d
      obtain D1 where "dispatched (trace st') = dispatched (trace st) @ D1" "set D1 \<subseteq> {j}"
        by auto
      with Cons.prems(6,7) False show ?thesis by auto
    next
      case (Inr st1)
      from Inr forUI_each_dispatches [of x d st st1] d
      obtain D1 where D1: "dispatched (trace st1) = dispatched (trace st) @ D1" "set D1 \<subseteq> {j}"
        by auto
      from Inr Cons.prems(5)
      have l: "forUI_loop x docs st1 = Inl st' \<or> forUI_loop x docs st1 = Inr st'"
        by simp
      from forUI_loop_dispatches [OF l]
      obtain D2 where D2: "dispatched (trace st') = dispatched (trace st1) @ D2" by blast
      with D1 Cons.prems(6) have D: "D = D1 @ D2" by simp
      with Cons.prems(7) D1(2) False have i2: "i \<in> set D2" by auto
      from Cons.IH [OF dd m Cons.prems(3,4) l D2 i2]
      have r: "forUI_loop x docs st1 = Inl st'"
        and s: "status_of (scheduledCalls st') i = status_of (scheduledCalls st1) i"
        and la: "last D2 = i" by simp_all
      from Inr d False have "status_of (scheduledCalls st1) i = status_of (scheduledCalls st) i"
        using forUI_each_status_other [of x j dj st st1 i] by simp
      moreover from i2 have "D2 \<noteq> []" by auto
      ultimately show ?thesis
        using Inr r s la D by simp
    qed
  qed
qed

lemma cron_cycle_unreachable:
  assumes "distinct (map fst (scheduledCalls st))" and "(i, data) \<in> set (scheduledCalls st)"
    and "map_of data ''phoneNumber'' = Some ph" and "call x ph = Unreachable"
    and "dispatched (trace (cron_cycle x now_iso st)) = dispatched (trace st) @ D" and "i \<in> set D"
  shows "status_of (scheduledCalls (cron_cycle x now_iso st)) i = Some (JStr ''pending'')
       \<and> last (trace (cron_cycle x now_iso st)) = Print CronError \<and> last D = i"
proof -
  let ?st1 = "emit [Print CronChecking, Print (CurrentTime now_iso)] st"
  let ?docs = "query_due now_iso (scheduledCalls st)"
  from cron_cycle_dispatches [of x now_iso st] assms(5)
  have sub: "set D \<subseteq> fst ` set ?docs" by auto
  with assms(6) obtain data' where "(i, data') \<in> set ?docs" by auto
  moreover from this have "(i, data') \<in> set (scheduledCalls st)" by (simp add: query_due_def)
  with assms(1,2) have "data' = data" by (meson eq_key_imp_eq_value)
  ultimately have m: "(i, data) \<in> set ?docs" by simp
  have pen: "status_of (scheduledCalls st) i = Some (JStr ''pending'')"
    using query_due_pending [OF assms(1)] sub assms(6) by blast
  have q: "query_ok x \<and> ?docs \<noteq> []"
  proof (rule ccontr)
    assume "\<not> (query_ok x \<and> ?docs \<noteq> [])"
    then have "dispatched (trace (cron_cycle x now_iso st)) = dispatched (trace st)"
      by (auto simp: cron_cycle_def Let_def dispatched_append)
    with assms(5,6) show False by simp
  qed
  obtain st2 where s: "forUI_loop x ?docs ?st1 = Inl st2 \<or> forUI_loop x ?docs ?st1 = Inr st2"
    by (cases "forUI_loop x ?docs ?st1") auto
  with q have c: "cron_cycle x now_iso st = emit [Print CronError] st2 \<or> cron_cycle x now_iso st = st2"
    by (auto simp: cron_cycle_def Let_def)
  then have "dispatched (trace (cron_cycle x now_iso st)) = dispatched (trace st2)"
    by (auto simp: dispatched_append)
  with assms(5) have d2: "dispatched (trace st2) = dispatched (trace ?st1) @ D"
    by (simp add: dispatched_append)
  from forUI_loop_unreachable [OF query_due_distinct [OF assms(1)] m assms(3,4) s d2 assms(6)]
  have l: "forUI_loop x ?docs ?st1 = Inl st2"
    and u: "status_of (scheduledCalls st2) i = status_of (scheduledCalls ?st1) i"
    and la: "last D = i" by simp_all
  from l q have "cron_cycle x now_iso st = emit [Print CronError] st2"
    by (simp add: cron_cycle_def Let_def)
  with u pen la show ?thesis by simp
qed

subsection \<open>The scenario of the specification\<close>

lemma due_task_due:
  "query_due ''2024-01-02T00:00:00Z'' [(''t1'', due_task)] = [(''t1'', due_task)]"
  "query_due ''2024-01-02T00:01:00Z'' [(''t1'', due_task)] = [(''t1'', due_task)]"
  "query_due ''2024-01-02T00:01:00Z''
     [(''t1'', dict_set due_task ''status'' (JStr ''processed''))] = []"
  "dict_get due_task ''phoneNumber'' = JStr ''+15551234567''"
  "map_of due_task ''phoneNumber'' = Some (JStr ''+15551234567'')"
  by (simp_all add: query_due_def due_def due_task_def dict_get_def dict_set_def)

lemma due_task_due_offset:
  "query_due ''2024-01-02T00:00:00+00:00'' [(''t1'', due_task)] = [(''t1'', due_task)]"
  "query_due ''2024-01-02T00:01:00+00:00'' [(''t1'', due_task)] = [(''t1'', due_task)]"
  by (simp_all add: query_due_def due_def due_task_def dict_get_def)

lemma server_first_cycle:
  "check_scheduled_calls reliable ''2024-01-02T00:00:00Z''
     \<lparr>scheduledCalls = [(''t1'', due_task)], trace = []\<rparr>
   = \<lparr>scheduledCalls = [(''t1'', dict_set due_task ''status'' (JStr ''processed''))],
      trace = [Print CronChecking, Print (CurrentTime ''2024-01-02T00:00:00Z''),
               Print (DueCallFound (JStr ''+15551234567'')), Dispatch ''t1'',
               Print (StartingCall (JStr ''+15551234567'')), PlaceCall (JStr ''+15551234567''),
               Print CallInitiated, SetStatus ''t1'' ''processed'', Print MarkedProcessed]\<rparr>"
  by (simp add: check_scheduled_calls_def reliable_def due_task_due server_each_def
        server_make_call_def emit_def mark_processed_def Let_def)

lemma server_failed_update_cycle:
  "check_scheduled_calls (reliable\<lparr>update_ok := \<lambda>i. False\<rparr>) ''2024-01-02T00:00:00Z''
     \<lparr>scheduledCalls = [(''t1'', due_task)], trace = []\<rparr>
   = \<lparr>scheduledCalls = [(''t1'', due_task)],
      trace = [Print CronChecking, Print (CurrentTime ''2024-01-02T00:00:00Z''),
               Print (DueCallFound (JStr ''+15551234567'')), Dispatch ''t1'',
               Print (StartingCall (JStr ''+15551234567'')), PlaceCall (JStr ''+15551234567''),
               Print CallInitiated, Print CronError]\<rparr>"
  by (simp add: check_scheduled_calls_def reliable_def due_task_due server_each_def
        server_make_call_def emit_def mark_processed_def Let_def)

lemma server_second_cycle:
  "dispatched (trace (server_scheduler
      [(reliable, ''2024-01-02T00:00:00Z''), (reliable, ''2024-01-02T00:01:00Z'')]
      \<lparr>scheduledCalls = [(''t1'', due_task)], trace = []\<rparr>)) = [''t1'']"
  by (simp add: server_scheduler_def server_first_cycle)
     (simp add: check_scheduled_calls_def reliable_def due_task_due Let_def emit_def)

lemma forUI_unreachable_cycle:
  "cron_cycle (reliable\<lparr>call := \<lambda>ph. Unreachable\<rparr>) now_iso
     \<lparr>scheduledCalls = [(''t1'', due_task)], trace = tr\<rparr>
   = (if query_due now_iso [(''t1'', due_task)] = []
      then \<lparr>scheduledCalls = [(''t1'', due_task)],
            trace = tr @ [Print CronChecking, Print (CurrentTime now_iso), Print NoPendingCalls]\<rparr>
      else \<lparr>scheduledCalls = [(''t1'', due_task)],
            trace = tr @ [Print CronChecking, Print (CurrentTime now_iso),
                          Print (DueCallFound (JStr ''+15551234567'')), Dispatch ''t1'',
                          Print (StartingCall (JStr ''+15551234567'')),
                          PlaceCall (JStr ''+15551234567''), Print CronError]\<rparr>)"
  by (auto simp: cron_cycle_def reliable_def query_due_def due_task_due forUI_each_def
        forUI_make_call_def emit_def Let_def)

subsection \<open>Dispatch at most once\<close>

text \<open>
  C1. A cycle of \<^verbatim>\<open>server.py\<close> on the due task calls the provider while the task is
  still pending and writes the status once, to processed, after the call: there is no
  transition to a status claimed. When that update fails, the next cycle finds the task
  pending and calls again.
\<close>

theorem no_claim_counterexample:
  "trace (check_scheduled_calls reliable ''2024-01-02T00:00:00Z''
            \<lparr>scheduledCalls = [(''t1'', due_task)], trace = []\<rparr>)
   = [Print CronChecking, Print (CurrentTime ''2024-01-02T00:00:00Z''),
      Print (DueCallFound (JStr ''+15551234567'')), Dispatch ''t1'',
      Print (StartingCall (JStr ''+15551234567'')), PlaceCall (JStr ''+15551234567''),
      Print CallInitiated, SetStatus ''t1'' ''processed'', Print MarkedProcessed]
   \<and> dispatched (trace (server_scheduler
          [(reliable\<lparr>update_ok := \<lambda>i. False\<rparr>, ''2024-01-02T00:00:00Z''),
           (reliable, ''2024-01-02T00:01:00Z'')]
          \<lparr>scheduledCalls = [(''t1'', due_task)], trace = []\<rparr>))
     = [''t1'', ''t1'']"
proof -
  have "dispatched (trace (check_scheduled_calls reliable ''2024-01-02T00:01:00Z''
          \<lparr>scheduledCalls = [(''t1'', due_task)],
      trace = [Print CronChecking, Print (CurrentTime ''2024-01-02T00:00:00Z''),
               Print (DueCallFound (JStr ''+15551234567'')), Dispatch ''t1'',
               Print (StartingCall (JStr ''+15551234567'')), PlaceCall (JStr ''+15551234567''),
               Print CallInitiated, Print CronError]\<rparr>)) = [''t1'', ''t1'']"
    by (simp add: check_scheduled_calls_def reliable_def due_task_due server_each_def
        server_make_call_def emit_def mark_processed_def Let_def)
  then show ?thesis
    by (simp add: server_first_cycle server_scheduler_def server_failed_update_cycle)
qed

text \<open>
  C1, amended. There is no claim transition. In both programs a poll cycle invokes the
  call trigger only for tasks that the query returns, pending and due, at the start of
  the cycle, so a task with any other status, claimed or processed, is never dispatched.
  The store changes only by the updates the cycle records, and each of them writes the
  status processed for a task after the request to the provider for that task was made.
  In a process whose updates of the store all succeed (and, in \<^verbatim>\<open>forUI.py\<close>, whose
  requests to the provider do not raise), across any number of poll cycles no task is
  dispatched twice and every dispatched task is marked processed.
\<close>

theorem dispatch_pending_once:
  assumes "distinct (map fst (scheduledCalls st))"
  shows "(\<exists>es. trace (check_scheduled_calls x now_iso st) = trace st @ es
            \<and> in_order None es
            \<and> scheduledCalls (check_scheduled_calls x now_iso st) = replay es (scheduledCalls st)
            \<and> set (dispatched es) \<subseteq> fst ` set (query_due now_iso (scheduledCalls st))
            \<and> (\<forall>i \<in> set (dispatched es). status_of (scheduledCalls st) i = Some (JStr ''pending'')))
       \<and> (\<exists>es. trace (cron_cycle x now_iso st) = trace st @ es
            \<and> in_order None es
            \<and> scheduledCalls (cron_cycle x now_iso st) = replay es (scheduledCalls st)
            \<and> set (dispatched es) \<subseteq> fst ` set (query_due now_iso (scheduledCalls st))
            \<and> (\<forall>i \<in> set (dispatched es). status_of (scheduledCalls st) i = Some (JStr ''pending'')))
       \<and> (trace st = [] \<and> (\<forall>(y, t) \<in> set cycles. \<forall>i. update_ok y i) \<longrightarrow>
            distinct (dispatched (trace (server_scheduler cycles st)))
            \<and> (\<forall>i \<in> set (dispatched (trace (server_scheduler cycles st))).
                  status_of (scheduledCalls (server_scheduler cycles st)) i
                    = Some (JStr ''processed'')))
       \<and> (trace st = []
            \<and> (\<forall>(y, t) \<in> set cycles. (\<forall>i. update_ok y i) \<and> (\<forall>ph. call y ph \<noteq> Unreachable)) \<longrightarrow>
            distinct (dispatched (trace (cron_job cycles st)))
            \<and> (\<forall>i \<in> set (dispatched (trace (cron_job cycles st))).
                  status_of (scheduledCalls (cron_job cycles st)) i = Some (JStr ''processed'')))"
proof (intro conjI impI)
  from check_scheduled_calls_record [of x now_iso st]
  obtain es where es: "trace (check_scheduled_calls x now_iso st) = trace st @ es" "in_order None es"
    "scheduledCalls (check_scheduled_calls x now_iso st) = replay es (scheduledCalls st)"
    by blast
  from check_scheduled_calls_dispatches [of x now_iso st]
  obtain D where "dispatched (trace (check_scheduled_calls x now_iso st)) = dispatched (trace st) @ D"
    and "set D \<subseteq> fst ` set (query_due now_iso (scheduledCalls st))"
    by blast
  with es(1) cycle_dispatch_pending [OF assms, of "trace st" es D now_iso]
  have "set (dispatched es) \<subseteq> fst ` set (query_due now_iso (scheduledCalls st))
       \<and> (\<forall>i \<in> set (dispatched es). status_of (scheduledCalls st) i = Some (JStr ''pending''))"
    by simp
  with es
  show "\<exists>es. trace (check_scheduled_calls x now_iso st) = trace st @ es
            \<and> in_order None es
            \<and> scheduledCalls (check_scheduled_calls x now_iso st) = replay es (scheduledCalls st)
            \<and> set (dispatched es) \<subseteq> fst ` set (query_due now_iso (scheduledCalls st))
            \<and> (\<forall>i \<in> set (dispatched es). status_of (scheduledCalls st) i = Some (JStr ''pending''))"
    by blast
next
  from cron_cycle_record [of x now_iso st]
  obtain es where es: "trace (cron_cycle x now_iso st) = trace st @ es" "in_order None es"
    "scheduledCalls (cron_cycle x now_iso st) = replay es (scheduledCalls st)"
    by blast
  from cron_cycle_dispatches [of x now_iso st]
  obtain D where "dispatched (trace (cron_cycle x now_iso st)) = dispatched (trace st) @ D"
    and "set D \<subseteq> fst ` set (query_due now_iso (scheduledCalls st))"
    by blast
  with es(1) cycle_dispatch_pending [OF assms, of "trace st" es D now_iso]
  have "set (dispatched es) \<subseteq> fst ` set (query_due now_iso (scheduledCalls st))
       \<and> (\<forall>i \<in> set (dispatched es). status_of (scheduledCalls st) i = Some (JStr ''pending''))"
    by simp
  with es
  show "\<exists>es. trace (cron_cycle x now_iso st) = trace st @ es
            \<and> in_order None es
            \<and> scheduledCalls (cron_cycle x now_iso st) = replay es (scheduledCalls st)
            \<and> set (dispatched es) \<subseteq> fst ` set (query_due now_iso (scheduledCalls st))
            \<and> (\<forall>i \<in> set (dispatched es). status_of (scheduledCalls st) i = Some (JStr ''pending''))"
    by blast
next
  assume a: "trace st = [] \<and> (\<forall>(y, t) \<in> set cycles. \<forall>i. update_ok y i)"
  with assms have "dispatch_inv st" by (simp add: dispatch_inv_def)
  with a have "dispatch_inv (server_scheduler cycles st)"
    by (intro server_scheduler_inv) auto
  then show "distinct (dispatched (trace (server_scheduler cycles st)))"
    and "\<forall>i \<in> set (dispatched (trace (server_scheduler cycles st))).
           status_of (scheduledCalls (server_scheduler cycles st)) i = Some (JStr ''processed'')"
    by (simp_all add: dispatch_inv_def)
next
  assume a: "trace st = []
            \<and> (\<forall>(y, t) \<in> set cycles. (\<forall>i. update_ok y i) \<and> (\<forall>ph. call y ph \<noteq> Unreachable))"
  with assms have "dispatch_inv st" by (simp add: dispatch_inv_def)
  with a have "dispatch_inv (cron_job cycles st)"
    by (intro cron_job_inv) auto
  then show "distinct (dispatched (trace (cron_job cycles st)))"
    and "\<forall>i \<in> set (dispatched (trace (cron_job cycles st))).
           status_of (scheduledCalls (cron_job cycles st)) i = Some (JStr ''processed'')"
    by (simp_all add: dispatch_inv_def)
qed

text \<open>
Two cycles of \<^verbatim>\<open>server.py\<close> on the task of the scenario: one call, made before the update.
\<close>

theorem dispatch_pending_once_witness:
  "distinct (map fst [(''t1'', due_task)])
   \<and> dispatched (trace (server_scheduler
        [(reliable, ''2024-01-02T00:00:00Z''), (reliable, ''2024-01-02T00:01:00Z'')]
        \<lparr>scheduledCalls = [(''t1'', due_task)], trace = []\<rparr>)) = [''t1'']
   \<and> status_of (scheduledCalls (server_scheduler
        [(reliable, ''2024-01-02T00:00:00Z''), (reliable, ''2024-01-02T00:01:00Z'')]
        \<lparr>scheduledCalls = [(''t1'', due_task)], trace = []\<rparr>)) ''t1'' = Some (JStr ''processed'')
   \<and> in_order None (trace (check_scheduled_calls reliable ''2024-01-02T00:00:00Z''
        \<lparr>scheduledCalls = [(''t1'', due_task)], trace = []\<rparr>))"
  using dispatch_pending_once
    [of "\<lparr>scheduledCalls = [(''t1'', due_task)], trace = []\<rparr>" reliable "''2024-01-02T00:00:00Z''"
        "[(reliable, ''2024-01-02T00:00:00Z''), (reliable, ''2024-01-02T00:01:00Z'')]",
     THEN conjunct2, THEN conjunct2, THEN conjunct1]
    dispatch_pending_once
    [of "\<lparr>scheduledCalls = [(''t1'', due_task)], trace = []\<rparr>" reliable "''2024-01-02T00:00:00Z''"
        "[]", THEN conjunct1]
  by (simp add: server_second_cycle) (auto simp: reliable_def)

subsection \<open>Failure of the call trigger\<close>

text \<open>
  C5. In \<^verbatim>\<open>server.py\<close> a task whose call the provider rejects is marked processed.
  In \<^verbatim>\<open>forUI.py\<close> a task whose call cannot reach the provider stays pending and is
  dispatched again by the next cycle.
\<close>

theorem trigger_failure_counterexample:
  "status_of (scheduledCalls (check_scheduled_calls (reliable\<lparr>call := \<lambda>ph. Rejected\<rparr>)
       ''2024-01-02T00:00:00Z'' \<lparr>scheduledCalls = [(''t1'', due_task)], trace = []\<rparr>)) ''t1''
     = Some (JStr ''processed'')
   \<and> status_of (scheduledCalls (cron_job
         [(reliable\<lparr>call := \<lambda>ph. Unreachable\<rparr>, ''2024-01-02T00:00:00+00:00''),
          (reliable\<lparr>call := \<lambda>ph. Unreachable\<rparr>, ''2024-01-02T00:01:00+00:00'')]
         \<lparr>scheduledCalls = [(''t1'', due_task)], trace = []\<rparr>)) ''t1''
     = Some (JStr ''pending'')
   \<and> dispatched (trace (cron_job
         [(reliable\<lparr>call := \<lambda>ph. Unreachable\<rparr>, ''2024-01-02T00:00:00+00:00''),
          (reliable\<lparr>call := \<lambda>ph. Unreachable\<rparr>, ''2024-01-02T00:01:00+00:00'')]
         \<lparr>scheduledCalls = [(''t1'', due_task)], trace = []\<rparr>))
     = [''t1'', ''t1'']"
proof -
  have "status_of (scheduledCalls (check_scheduled_calls (reliable\<lparr>call := \<lambda>ph. Rejected\<rparr>)
       ''2024-01-02T00:00:00Z'' \<lparr>scheduledCalls = [(''t1'', due_task)], trace = []\<rparr>)) ''t1''
     = Some (JStr ''processed'')"
    by (simp add: check_scheduled_calls_def reliable_def due_task_due server_each_def
        server_make_call_def emit_def mark_processed_def Let_def status_of_def dict_get_set)
  moreover have "cron_job
         [(reliable\<lparr>call := \<lambda>ph. Unreachable\<rparr>, ''2024-01-02T00:00:00+00:00''),
          (reliable\<lparr>call := \<lambda>ph. Unreachable\<rparr>, ''2024-01-02T00:01:00+00:00'')]
         \<lparr>scheduledCalls = [(''t1'', due_task)], trace = []\<rparr>
     = \<lparr>scheduledCalls = [(''t1'', due_task)],
        trace = [Print CronChecking, Print (CurrentTime ''2024-01-02T00:00:00+00:00''),
                 Print (DueCallFound (JStr ''+15551234567'')), Dispatch ''t1'',
                 Print (StartingCall (JStr ''+15551234567'')),
                 PlaceCall (JStr ''+15551234567''), Print CronError,
                 Print CronChecking, Print (CurrentTime ''2024-01-02T00:01:00+00:00''),
                 Print (DueCallFound (JStr ''+15551234567'')), Dispatch ''t1'',
                 Print (StartingCall (JStr ''+15551234567'')),
                 PlaceCall (JStr ''+15551234567''), Print CronError]\<rparr>"
    by (simp add: cron_job_def forUI_unreachable_cycle due_task_due_offset)
  moreover have "status_of [(''t1'', due_task)] ''t1'' = Some (JStr ''pending'')"
    by (simp add: status_of_def due_task_def dict_get_def)
  ultimately show ?thesis by simp
qed

text \<open>
  C5, amended. There is no status claimed. In \<^verbatim>\<open>server.py\<close>, when the call trigger
  fails for a due task, the failure is printed and, when the update succeeds, the task is
  marked processed all the same. In \<^verbatim>\<open>forUI.py\<close>, an error response of the provider
  is printed and the task is marked processed; when the request to the provider raises for
  a task, the cycle ends there with the error printed, no later task is dispatched in it,
  and that task stays pending.
\<close>

theorem trigger_failure:
  "(truthy (dict_get data ''phoneNumber'') \<and> call x (dict_get data ''phoneNumber'') \<noteq> Placed
      \<and> update_ok x i \<longrightarrow>
      (\<exists>st'. server_each x (i, data) (st, pa) = Inr (st', True)
         \<and> trace st' = trace st @ [Print (DueCallFound (dict_get data ''phoneNumber'')), Dispatch i,
                                    Print (StartingCall (dict_get data ''phoneNumber'')),
                                    PlaceCall (dict_get data ''phoneNumber''),
                                    Print ErrorMakingCall, SetStatus i ''processed'']
         \<and> (i \<in> fst ` set (scheduledCalls st) \<longrightarrow>
               status_of (scheduledCalls st') i = Some (JStr ''processed''))))
   \<and> (map_of data ''phoneNumber'' = Some ph \<and> call x ph = Rejected \<and> update_ok x i \<longrightarrow>
        (\<exists>st'. forUI_each x (i, data) st = Inr st'
           \<and> trace st' = trace st @ [Print (DueCallFound ph), Dispatch i, Print (StartingCall ph),
                                      PlaceCall ph, Print TwilioResponse,
                                      SetStatus i ''processed'', Print MarkedProcessed]
           \<and> (i \<in> fst ` set (scheduledCalls st) \<longrightarrow>
                 status_of (scheduledCalls st') i = Some (JStr ''processed''))))
   \<and> (distinct (map fst (scheduledCalls st)) \<and> (i, data) \<in> set (scheduledCalls st)
        \<and> map_of data ''phoneNumber'' = Some ph \<and> call x ph = Unreachable
        \<and> dispatched (trace (cron_cycle x now_iso st)) = dispatched (trace st) @ D \<and> i \<in> set D \<longrightarrow>
        status_of (scheduledCalls (cron_cycle x now_iso st)) i = Some (JStr ''pending'')
        \<and> last (trace (cron_cycle x now_iso st)) = Print CronError \<and> last D = i)"
proof (intro conjI impI)
  assume a: "truthy (dict_get data ''phoneNumber'') \<and> call x (dict_get data ''phoneNumber'') \<noteq> Placed
      \<and> update_ok x i"
  let ?ph = "dict_get data ''phoneNumber''"
  let ?st' = "mark_processed i (emit [Print (DueCallFound ?ph), Dispatch i, Print (StartingCall ?ph),
                                      PlaceCall ?ph, Print ErrorMakingCall] st)"
  have "server_each x (i, data) (st, pa) = Inr (?st', True)"
    using a by (simp add: server_each_def server_make_call_def Let_def emit_def)
  moreover have "trace ?st' = trace st @ [Print (DueCallFound ?ph), Dispatch i, Print (StartingCall ?ph),
                                    PlaceCall ?ph, Print ErrorMakingCall, SetStatus i ''processed'']"
    by simp
  moreover have "i \<in> fst ` set (scheduledCalls st) \<longrightarrow>
               status_of (scheduledCalls ?st') i = Some (JStr ''processed'')"
    by (simp add: mark_processed_status)
  ultimately show "\<exists>st'. server_each x (i, data) (st, pa) = Inr (st', True)
         \<and> trace st' = trace st @ [Print (DueCallFound ?ph), Dispatch i, Print (StartingCall ?ph),
                                    PlaceCall ?ph, Print ErrorMakingCall, SetStatus i ''processed'']
         \<and> (i \<in> fst ` set (scheduledCalls st) \<longrightarrow>
               status_of (scheduledCalls st') i = Some (JStr ''processed''))"
    by blast
next
  assume a: "map_of data ''phoneNumber'' = Some ph \<and> call x ph = Rejected \<and> update_ok x i"
  let ?st2 = "mark_processed i (emit [Print (DueCallFound ph), Dispatch i, Print (StartingCall ph),
                                      PlaceCall ph, Print TwilioResponse] st)"
  let ?st' = "emit [Print MarkedProcessed] ?st2"
  have "forUI_each x (i, data) st = Inr ?st'"
    using a by (simp add: forUI_each_def forUI_make_call_def Let_def emit_def)
  moreover have "trace ?st' = trace st @ [Print (DueCallFound ph), Dispatch i, Print (StartingCall ph),
                                      PlaceCall ph, Print TwilioResponse,
                                      SetStatus i ''processed'', Print MarkedProcessed]"
    by simp
  moreover have "i \<in> fst ` set (scheduledCalls st) \<longrightarrow>
                 status_of (scheduledCalls ?st') i = Some (JStr ''processed'')"
    by (simp add: mark_processed_status)
  ultimately show "\<exists>st'. forUI_each x (i, data) st = Inr st'
           \<and> trace st' = trace st @ [Print (DueCallFound ph), Dispatch i, Print (StartingCall ph),
                                      PlaceCall ph, Print TwilioResponse,
                                      SetStatus i ''processed'', Print MarkedProcessed]
           \<and> (i \<in> fst ` set (scheduledCalls st) \<longrightarrow>
                 status_of (scheduledCalls st') i = Some (JStr ''processed''))"
    by blast
next
  assume a: "distinct (map fst (scheduledCalls st)) \<and> (i, data) \<in> set (scheduledCalls st)
        \<and> map_of data ''phoneNumber'' = Some ph \<and> call x ph = Unreachable
        \<and> dispatched (trace (cron_cycle x now_iso st)) = dispatched (trace st) @ D \<and> i \<in> set D"
  then have "status_of (scheduledCalls (cron_cycle x now_iso st)) i = Some (JStr ''pending'')
        \<and> last (trace (cron_cycle x now_iso st)) = Print CronError \<and> last D = i"
    using cron_cycle_unreachable [of st i data ph x now_iso D] by blast
  then show "status_of (scheduledCalls (cron_cycle x now_iso st)) i = Some (JStr ''pending'')"
    and "last (trace (cron_cycle x now_iso st)) = Print CronError" and "last D = i"
    by simp_all
qed

text \<open>
The task of the scenario when the provider cannot be reached.
\<close>

theorem trigger_failure_witness:
  "(\<exists>st'. server_each (reliable\<lparr>call := \<lambda>ph. Unreachable\<rparr>) (''t1'', due_task)
             (\<lparr>scheduledCalls = [(''t1'', due_task)], trace = []\<rparr>, False) = Inr (st', True)
          \<and> trace st' = [Print (DueCallFound (JStr ''+15551234567'')), Dispatch ''t1'',
                          Print (StartingCall (JStr ''+15551234567'')),
                          PlaceCall (JStr ''+15551234567''),
                          Print ErrorMakingCall, SetStatus ''t1'' ''processed'']
          \<and> status_of (scheduledCalls st') ''t1'' = Some (JStr ''processed''))
   \<and> dispatched (trace (cron_cycle (reliable\<lparr>call := \<lambda>ph. Unreachable\<rparr>) ''2024-01-02T00:00:00+00:00''
          \<lparr>scheduledCalls = [(''t1'', due_task)], trace = []\<rparr>)) = [''t1'']
   \<and> status_of (scheduledCalls (cron_cycle (reliable\<lparr>call := \<lambda>ph. Unreachable\<rparr>)
          ''2024-01-02T00:00:00+00:00'' \<lparr>scheduledCalls = [(''t1'', due_task)], trace = []\<rparr>)) ''t1''
     = Some (JStr ''pending'')
   \<and> last (trace (cron_cycle (reliable\<lparr>call := \<lambda>ph. Unreachable\<rparr>)
          ''2024-01-02T00:00:00+00:00'' \<lparr>scheduledCalls = [(''t1'', due_task)], trace = []\<rparr>))
     = Print CronError"
proof -
  let ?x = "reliable\<lparr>call := \<lambda>ph. Unreachable\<rparr>"
  let ?st = "\<lparr>scheduledCalls = [(''t1'', due_task)], trace = []\<rparr>"
  have d: "dispatched (trace (cron_cycle ?x ''2024-01-02T00:00:00+00:00'' ?st)) = [''t1'']"
    by (simp add: forUI_unreachable_cycle due_task_due_offset)
  have h: "distinct (map fst (scheduledCalls ?st)) \<and> (''t1'', due_task) \<in> set (scheduledCalls ?st)
        \<and> map_of due_task ''phoneNumber'' = Some (JStr ''+15551234567'')
        \<and> call ?x (JStr ''+15551234567'') = Unreachable
        \<and> dispatched (trace (cron_cycle ?x ''2024-01-02T00:00:00+00:00'' ?st))
            = dispatched (trace ?st) @ [''t1'']
        \<and> ''t1'' \<in> set [''t1'']"
    using d by (simp add: due_task_due reliable_def)
  have s: "truthy (dict_get due_task ''phoneNumber'')
         \<and> call ?x (dict_get due_task ''phoneNumber'') \<noteq> Placed \<and> update_ok ?x ''t1''"
    by (simp add: due_task_due reliable_def)
  from trigger_failure [of due_task ?x "''t1''" ?st False, THEN conjunct1, rule_format, OF s]
  have 1: "\<exists>st'. server_each ?x (''t1'', due_task) (?st, False) = Inr (st', True)
          \<and> trace st' = [Print (DueCallFound (JStr ''+15551234567'')), Dispatch ''t1'',
                          Print (StartingCall (JStr ''+15551234567'')),
                          PlaceCall (JStr ''+15551234567''),
                          Print ErrorMakingCall, SetStatus ''t1'' ''processed'']
          \<and> status_of (scheduledCalls st') ''t1'' = Some (JStr ''processed'')"
    by (simp add: due_task_due)
  from trigger_failure [where data = due_task and x = ?x and i = "''t1''" and st = ?st
                          and ph = "JStr ''+15551234567''" and D = "[''t1'']"
                          and now_iso = "''2024-01-02T00:00:00+00:00''",
          THEN conjunct2, THEN conjunct2, rule_format, OF h]
  have 2: "status_of (scheduledCalls (cron_cycle ?x ''2024-01-02T00:00:00+00:00'' ?st)) ''t1''
             = Some (JStr ''pending'')
         \<and> last (trace (cron_cycle ?x ''2024-01-02T00:00:00+00:00'' ?st)) = Print CronError"
    by simp
  from 1 2 d show ?thesis by blast
qed

end
